theory Spec2Isabelle
  imports Main "HOL-Library.Sublist"
begin

section \<open>Lexer (src/lexer/Token.h, src/lexer/Lexer.h)\<close>

text \<open>
  \<^verbatim>\<open>enum class TokenKind\<close> of Token.h. The enumeration is scoped in the source
  (\<^verbatim>\<open>TokenKind::Def\<close>, \<^verbatim>\<open>TokenKind::True\<close>, ...); the scope is written as the
  prefix \<open>TK_\<close>, which also keeps \<open>True\<close>, \<open>False\<close> and \<open>If\<close> apart from the
  constants of HOL.
\<close>

datatype TokenKind =
    TK_EndOfFile | TK_Error
  | TK_Identifier | TK_Integer | TK_Float | TK_String
  | TK_Def | TK_End | TK_If | TK_Else | TK_Return | TK_Var | TK_Struct | TK_Extern
  | TK_While | TK_True | TK_False
  | TK_Plus | TK_Minus | TK_Star | TK_Slash | TK_Equal | TK_EqualEqual | TK_NotEqual
  | TK_Arrow
  | TK_LParen | TK_RParen | TK_LBracket | TK_RBracket | TK_Comma | TK_Colon | TK_Dot
  | TK_LessThan | TK_GreaterThan

text \<open>
  \<^verbatim>\<open>struct Token { kind; text; line; column }\<close> (\<open>text\<close> is a command of Isabelle, so the
  fields are \<open>kind\<close>, \<open>tok_text\<close>, \<open>tok_line\<close>, \<open>tok_column\<close>). The text is a slice of the source;
  the model holds the characters of the slice.
\<close>

record Token =
  kind :: TokenKind
  tok_text :: string
  tok_line :: int
  tok_column :: int

text \<open>
  The state of \<^verbatim>\<open>class Lexer\<close>. \<^verbatim>\<open>position\<close> and \<^verbatim>\<open>startPosition\<close> are \<^verbatim>\<open>int\<close> in
  the source; they start at 0 and only grow, by one, while below the length of the
  source, so they are natural numbers here (a source of 2^31 bytes or more, where the
  \<^verbatim>\<open>int\<close> would overflow, is outside the model).
\<close>

record Lexer =
  source :: string
  position :: nat
  line :: int
  column :: int
  startPosition :: nat

definition Lexer_new :: "string \<Rightarrow> Lexer" where
  "Lexer_new src = \<lparr>source = src, position = 0, line = 1, column = 1, startPosition = 0\<rparr>"

text \<open>
  The character classes of \<^verbatim>\<open><cctype>\<close> in the "C" locale, the locale a program runs in
  unless it calls \<^verbatim>\<open>setlocale\<close> (this one does not). Bytes above 127 are in no class.
\<close>

definition isspace :: "char \<Rightarrow> bool" where
  "isspace c = (c = CHR '' '' \<or> c = CHR 0x09 \<or> c = CHR 0x0A \<or> c = CHR 0x0B
                \<or> c = CHR 0x0C \<or> c = CHR 0x0D)"

definition isdigit :: "char \<Rightarrow> bool" where
  "isdigit c = (let n = (of_char c :: nat) in 48 \<le> n \<and> n \<le> 57)"

definition isalpha :: "char \<Rightarrow> bool" where
  "isalpha c = (let n = (of_char c :: nat) in (65 \<le> n \<and> n \<le> 90) \<or> (97 \<le> n \<and> n \<le> 122))"

definition isalnum :: "char \<Rightarrow> bool" where
  "isalnum c = (isalpha c \<or> isdigit c)"

text \<open>\<^verbatim>\<open>Lexer::peek\<close>: the character at the position, NUL at the end of the source.\<close>

definition peek :: "Lexer \<Rightarrow> char" where
  "peek L = (if position L \<ge> length (source L) then CHR 0x00 else source L ! position L)"

text \<open>\<^verbatim>\<open>Lexer::advance\<close>.\<close>

definition advance :: "Lexer \<Rightarrow> Lexer" where
  "advance L =
     (if position L < length (source L) then
        (if source L ! position L = CHR 0x0A
         then L\<lparr>position := position L + 1, line := line L + 1, column := 1\<rparr>
         else L\<lparr>position := position L + 1, column := column L + 1\<rparr>)
      else L)"

text \<open>
  The four scanning loops of the lexer all have the shape
  \<^verbatim>\<open>while (p(peek())) advance();\<close>. The model adds the guard that the position is
  inside the source, which makes the recursion well-founded for every \<open>p\<close>; for the
  conditions the source uses the guard is implied, since each of them is false of the
  NUL that \<^verbatim>\<open>peek\<close> returns at the end (lemmas \<open>loop_conditions_at_NUL\<close> and
  \<open>advanceWhile_guard_implied\<close>).
\<close>

function advanceWhile :: "(char \<Rightarrow> bool) \<Rightarrow> Lexer \<Rightarrow> Lexer" where
  "advanceWhile p L =
     (if position L < length (source L) \<and> p (peek L) then advanceWhile p (advance L) else L)"
  by pat_completeness auto
termination
  by (relation "measure (\<lambda>(p, L). length (source L) - position L)")
     (auto simp: advance_def)

declare advanceWhile.simps [simp del]

text \<open>The loop conditions of the source.\<close>

definition inComment :: "char \<Rightarrow> bool" where
  "inComment c = (c \<noteq> CHR 0x0A \<and> c \<noteq> CHR 0x00)"

definition inIdentifier :: "char \<Rightarrow> bool" where
  "inIdentifier c = (isalnum c \<or> c = CHR ''_'')"

definition inString :: "char \<Rightarrow> bool" where
  "inString c = (c \<noteq> CHR 0x22 \<and> c \<noteq> CHR 0x00)"

lemma advance_source [simp]: "source (advance L) = source L"
  by (simp add: advance_def)

lemma advance_startPosition [simp]: "startPosition (advance L) = startPosition L"
  by (simp add: advance_def)

lemma advance_position:
  "position (advance L) = (if position L < length (source L) then position L + 1 else position L)"
  by (simp add: advance_def)

lemma advanceWhile_step:
  "position L < length (source L) \<Longrightarrow> p (peek L) \<Longrightarrow> advanceWhile p L = advanceWhile p (advance L)"
  by (subst advanceWhile.simps) simp

lemma advanceWhile_stop:
  "\<not> (position L < length (source L) \<and> p (peek L)) \<Longrightarrow> advanceWhile p L = L"
  by (subst advanceWhile.simps) auto

lemma loop_conditions_at_NUL:
  "\<not> inComment (CHR 0x00)" "\<not> inIdentifier (CHR 0x00)" "\<not> inString (CHR 0x00)"
  "\<not> isdigit (CHR 0x00)"
  by (simp_all add: inComment_def inIdentifier_def inString_def isalnum_def isalpha_def isdigit_def)

lemma advanceWhile_guard_implied:
  "\<not> p (CHR 0x00) \<Longrightarrow> (position L < length (source L) \<and> p (peek L)) = p (peek L)"
  by (auto simp: peek_def)

lemma advanceWhile_source [simp]: "source (advanceWhile p L) = source L"
proof (induction p L rule: advanceWhile.induct)
  case (1 p L)
  then show ?case
    by (cases "position L < length (source L) \<and> p (peek L)")
       (simp_all add: advanceWhile_step advanceWhile_stop)
qed

lemma advanceWhile_startPosition [simp]: "startPosition (advanceWhile p L) = startPosition L"
proof (induction p L rule: advanceWhile.induct)
  case (1 p L)
  then show ?case
    by (cases "position L < length (source L) \<and> p (peek L)")
       (simp_all add: advanceWhile_step advanceWhile_stop)
qed

lemma advanceWhile_position_mono: "position L \<le> position (advanceWhile p L)"
proof (induction p L rule: advanceWhile.induct)
  case (1 p L)
  show ?case
  proof (cases "position L < length (source L) \<and> p (peek L)")
    case True
    with 1 have "position (advance L) \<le> position (advanceWhile p (advance L))" by simp
    moreover from True have "position (advance L) = position L + 1"
      by (simp add: advance_position)
    ultimately show ?thesis using True by (simp add: advanceWhile_step)
  next
    case False
    then show ?thesis by (simp add: advanceWhile_stop)
  qed
qed

lemma advanceWhile_position_le: "position L \<le> length (source L) \<Longrightarrow>
    position (advanceWhile p L) \<le> length (source L)"
proof (induction p L rule: advanceWhile.induct)
  case (1 p L)
  show ?case
  proof (cases "position L < length (source L) \<and> p (peek L)")
    case True
    then have "position (advance L) \<le> length (source (advance L))"
      by (simp add: advance_position)
    with 1 True show ?thesis by (simp add: advanceWhile_step)
  next
    case False
    with 1 show ?thesis by (simp add: advanceWhile_stop)
  qed
qed

text \<open>
  \<^verbatim>\<open>Lexer::skipWhitespace\<close>: white space, and comments from \<^verbatim>\<open>#\<close> to the end of the
  line (the newline itself is skipped as white space by the next round).
\<close>

lemma skipComment_progress:
  assumes "peek L = CHR ''#''"
  shows "position L < position (advanceWhile inComment L)"
    and "position L < length (source L)"
proof -
  from assms show inside: "position L < length (source L)"
    by (auto simp: peek_def split: if_splits)
  with assms have "advanceWhile inComment L = advanceWhile inComment (advance L)"
    by (simp add: advanceWhile_step inComment_def)
  moreover have "position (advance L) \<le> position (advanceWhile inComment (advance L))"
    by (rule advanceWhile_position_mono)
  moreover from inside have "position (advance L) = position L + 1"
    by (simp add: advance_position)
  ultimately show "position L < position (advanceWhile inComment L)" by simp
qed

function skipWhitespace :: "Lexer \<Rightarrow> Lexer" where
  "skipWhitespace L =
     (let c = peek L in
      if isspace c then skipWhitespace (advance L)
      else if c = CHR ''#'' then skipWhitespace (advanceWhile inComment L)
      else L)"
  by pat_completeness auto
termination
proof (relation "measure (\<lambda>L. length (source L) - position L)")
  show "wf (measure (\<lambda>L. length (source L) - position L))" by simp
next
  fix L c
  assume "c = peek L" and "isspace c"
  then have "position L < length (source L)"
    by (auto simp: peek_def isspace_def split: if_splits)
  then show "(advance L, L) \<in> measure (\<lambda>L. length (source L) - position L)"
    by (simp add: advance_position)
next
  fix L c
  assume c: "c = peek L" and "\<not> isspace c" and "c = CHR ''#''"
  then have "peek L = CHR ''#''" by simp
  from skipComment_progress [OF this]
  have "position L < position (advanceWhile inComment L)" "position L < length (source L)" .
  moreover have "position (advanceWhile inComment L) \<le> length (source L)"
    using advanceWhile_position_le [of L inComment] \<open>position L < length (source L)\<close> by simp
  ultimately show "(advanceWhile inComment L, L) \<in> measure (\<lambda>L. length (source L) - position L)"
    by simp
qed

declare skipWhitespace.simps [simp del]


text \<open>
  \<^verbatim>\<open>std::string_view::substr(pos, count)\<close>: the characters from \<open>pos\<close>, at most \<open>count\<close>
  of them. (The library throws when \<open>pos\<close> is beyond the end; the lexer calls it with
  \<open>pos \<le> position \<le> length\<close> only.)
\<close>

definition substr :: "string \<Rightarrow> nat \<Rightarrow> nat \<Rightarrow> string" where
  "substr s pos count = take count (drop pos s)"

text \<open>\<^verbatim>\<open>Lexer::atom\<close>: the token of the given kind whose text is the slice scanned so far.\<close>

definition atom :: "Lexer \<Rightarrow> TokenKind \<Rightarrow> Token" where
  "atom L k =
     (let t = substr (source L) (startPosition L) (position L - startPosition L)
      in \<lparr>kind = k, tok_text = t, tok_line = line L, tok_column = column L - int (length t)\<rparr>)"

text \<open>
  \<^verbatim>\<open>Lexer::identifier\<close> (\<open>identifier\<close> is a keyword of Isabelle; the function is
  \<open>identifierTok\<close> here), called after the first character has been consumed. The functions
  that return a token also move the lexer, so the model returns both.
\<close>

definition identifierTok :: "Lexer \<Rightarrow> Token \<times> Lexer" where
  "identifierTok L0 =
     (let L = advanceWhile inIdentifier L0;
          t = substr (source L) (startPosition L) (position L - startPosition L)
      in if t = ''def'' then (atom L TK_Def, L)
         else if t = ''end'' then (atom L TK_End, L)
         else if t = ''if'' then (atom L TK_If, L)
         else if t = ''else'' then (atom L TK_Else, L)
         else if t = ''return'' then (atom L TK_Return, L)
         else if t = ''var'' then (atom L TK_Var, L)
         else if t = ''struct'' then (atom L TK_Struct, L)
         else if t = ''extern'' then (atom L TK_Extern, L)
         else if t = ''while'' then (atom L TK_While, L)
         else if t = ''true'' then (atom L TK_True, L)
         else if t = ''false'' then (atom L TK_False, L)
         else (atom L TK_Identifier, L))"

text \<open>\<^verbatim>\<open>Lexer::number\<close>.\<close>

definition number :: "Lexer \<Rightarrow> Token \<times> Lexer" where
  "number L0 =
     (let isFloat = False;
          L1 = advanceWhile isdigit L0;
          (isFloat, L2) =
            (if peek L1 = CHR ''.''
             then (True, advanceWhile isdigit (advance L1))
             else (isFloat, L1))
      in (atom L2 (if isFloat then TK_Float else TK_Integer), L2))"

text \<open>
  \<^verbatim>\<open>Lexer::string\<close> (\<open>string\<close> is a type of HOL; the function is \<open>stringTok\<close> here).
  \<^verbatim>\<open>fullLen\<close> is a \<^verbatim>\<open>size_t\<close>, so \<^verbatim>\<open>fullLen - 2\<close> wraps around when \<^verbatim>\<open>fullLen\<close> is below 2
  (an opening quote with nothing scanned after it); the model writes the 64-bit
  wrap-around out.
\<close>

definition stringTok :: "Lexer \<Rightarrow> Token \<times> Lexer" where
  "stringTok L0 =
     (let L1 = advanceWhile inString (advance L0);
          L2 = (if peek L1 = CHR 0x22 then advance L1 else L1);
          fullLen = position L2 - startPosition L2;
          count = (if 2 \<le> fullLen then fullLen - 2 else fullLen + 2 ^ 64 - 2);
          t = substr (source L2) (startPosition L2 + 1) count
      in (\<lparr>kind = TK_String, tok_text = t, tok_line = line L2,
           tok_column = column L2 - int fullLen\<rparr>, L2))"

text \<open>
  The \<^verbatim>\<open>switch\<close> at the end of \<^verbatim>\<open>Lexer::nextToken\<close>, on the character \<open>c\<close> that has just
  been consumed. It has cases for \<^verbatim>\<open>+ * / ( ) , : . < > - = !\<close>; every other character
  falls through to the final \<^verbatim>\<open>return atom(TokenKind::Error)\<close>.
\<close>

definition switchToken :: "char \<Rightarrow> Lexer \<Rightarrow> Token \<times> Lexer" where
  "switchToken c L' =
     (if c = CHR ''+'' then (atom L' TK_Plus, L')
      else if c = CHR ''*'' then (atom L' TK_Star, L')
      else if c = CHR ''/'' then (atom L' TK_Slash, L')
      else if c = CHR ''('' then (atom L' TK_LParen, L')
      else if c = CHR '')'' then (atom L' TK_RParen, L')
      else if c = CHR '','' then (atom L' TK_Comma, L')
      else if c = CHR '':'' then (atom L' TK_Colon, L')
      else if c = CHR ''.'' then (atom L' TK_Dot, L')
      else if c = CHR ''<'' then (atom L' TK_LessThan, L')
      else if c = CHR ''>'' then (atom L' TK_GreaterThan, L')
      else if c = CHR ''-'' then
        (if peek L' = CHR ''>''
         then (let L'' = advance L' in (atom L'' TK_Arrow, L''))
         else (atom L' TK_Minus, L'))
      else if c = CHR ''='' then
        (if peek L' = CHR ''=''
         then (let L'' = advance L' in (atom L'' TK_EqualEqual, L''))
         else (atom L' TK_Equal, L'))
      else if c = CHR ''!'' then
        (if peek L' = CHR ''=''
         then (let L'' = advance L' in (atom L'' TK_NotEqual, L''))
         else (atom L' TK_Error, L'))
      else (atom L' TK_Error, L'))"

text \<open>\<^verbatim>\<open>Lexer::nextToken\<close>.\<close>

definition nextToken :: "Lexer \<Rightarrow> Token \<times> Lexer" where
  "nextToken L0 =
     (let L1 = skipWhitespace L0;
          L = L1\<lparr>startPosition := position L1\<rparr>;
          c = peek L
      in if c = CHR 0x00 then (atom L TK_EndOfFile, L)
         else if isalpha c \<or> c = CHR ''_'' then identifierTok (advance L)
         else if isdigit c then number L
         else if c = CHR 0x22 then stringTok L
         else switchToken c (advance L))"

subsection \<open>Lexing a source to exhaustion\<close>

text \<open>
  The parser pulls tokens one at a time; \<open>lexAll\<close> below is the loop that calls
  \<^verbatim>\<open>nextToken\<close> until it returns the end-of-file token, and collects the tokens in the order
  they are produced. That the loop ends is shown first: every token other than end-of-file
  moves \<open>position\<close> forward, and \<open>position\<close> never passes the end of the source.

  \<open>remaining\<close> is the part of the source that has not been consumed yet.
\<close>

definition remaining :: "Lexer \<Rightarrow> string" where
  "remaining L = drop (position L) (source L)"

lemma peek_remaining:
  "peek L = (case remaining L of [] \<Rightarrow> CHR 0x00 | c # cs \<Rightarrow> c)"
  by (auto simp: peek_def remaining_def hd_drop_conv_nth [symmetric] split: list.splits)


lemma remaining_advance:
  "remaining (advance L) = tl (remaining L)"
  by (auto simp: remaining_def advance_def drop_Suc tl_drop)

lemma remaining_advanceWhile:
  "remaining (advanceWhile p L) = dropWhile p (remaining L)"
proof (induction p L rule: advanceWhile.induct)
  case (1 p L)
  show ?case
  proof (cases "position L < length (source L) \<and> p (peek L)")
    case True
    then obtain c cs where r: "remaining L = c # cs" "peek L = c"
      by (cases "remaining L") (auto simp: peek_remaining remaining_def)
    with True 1 show ?thesis
      by (simp add: advanceWhile_step remaining_advance)
  next
    case False
    then show ?thesis
      by (cases "remaining L") (auto simp: advanceWhile_stop peek_remaining remaining_def)
  qed
qed

lemma position_advanceWhile:
  "position L \<le> length (source L) \<Longrightarrow>
     position (advanceWhile p L) = position L + length (takeWhile p (remaining L))"
proof (induction p L rule: advanceWhile.induct)
  case (1 p L)
  show ?case
  proof (cases "position L < length (source L) \<and> p (peek L)")
    case True
    then obtain c cs where r: "remaining L = c # cs" "peek L = c"
      by (cases "remaining L") (auto simp: peek_remaining remaining_def)
    from True have "position (advance L) = position L + 1" "position (advance L) \<le> length (source (advance L))"
      by (simp_all add: advance_position)
    with True 1 r show ?thesis
      by (simp add: advanceWhile_step remaining_advance)
  next
    case False
    then show ?thesis
      by (cases "remaining L") (auto simp: advanceWhile_stop peek_remaining remaining_def)
  qed
qed

lemma skipWhitespace_source [simp]: "source (skipWhitespace L) = source L"
proof (induction L rule: skipWhitespace.induct)
  case (1 L)
  show ?case
    using 1 by (subst skipWhitespace.simps) (simp add: Let_def)
qed

text \<open>
  The source "modulo whitespace and comments", written after the specification's words and not
  after the code: white space is dropped, and so is a comment, from its \<^verbatim>\<open>#\<close> up to (not
  including) the end of its line. \<open>plain\<close> characters are those that this leaves alone.
\<close>

function strip :: "string \<Rightarrow> string" where
  "strip [] = []"
| "strip (c # cs) =
     (if isspace c then strip cs
      else if c = CHR ''#'' then strip (dropWhile (\<lambda>c. c \<noteq> CHR 0x0A) cs)
      else c # strip cs)"
  by pat_completeness auto
termination
  by (relation "measure length") (auto simp: length_dropWhile_le le_imp_less_Suc)

definition plain :: "char \<Rightarrow> bool" where
  "plain c = (\<not> isspace c \<and> c \<noteq> CHR ''#'')"

lemma skipWhitespace_space:
  "isspace (peek L) \<Longrightarrow> skipWhitespace L = skipWhitespace (advance L)"
  by (subst skipWhitespace.simps) (simp add: Let_def)

lemma skipWhitespace_comment:
  "\<not> isspace (peek L) \<Longrightarrow> peek L = CHR ''#'' \<Longrightarrow>
     skipWhitespace L = skipWhitespace (advanceWhile inComment L)"
  by (subst skipWhitespace.simps) (simp add: Let_def)

lemma skipWhitespace_stop:
  "\<not> isspace (peek L) \<Longrightarrow> peek L \<noteq> CHR ''#'' \<Longrightarrow> skipWhitespace L = L"
  by (subst skipWhitespace.simps) (simp add: Let_def)

lemma skipWhitespace_peek:
  "\<not> isspace (peek (skipWhitespace L)) \<and> peek (skipWhitespace L) \<noteq> CHR ''#''"
proof (induction L rule: skipWhitespace.induct)
  case (1 L)
  consider "isspace (peek L)" | "\<not> isspace (peek L)" "peek L = CHR ''#''"
    | "\<not> isspace (peek L)" "peek L \<noteq> CHR ''#''" by blast
  then show ?case
  proof cases
    case 1
    with "1.IH"(1) show ?thesis by (simp add: skipWhitespace_space)
  next
    case 2
    with "1.IH"(2) show ?thesis by (simp add: skipWhitespace_comment)
  next
    case 3
    then show ?thesis by (simp add: skipWhitespace_stop)
  qed
qed

lemma skipWhitespace_remaining:
  "\<exists>n. remaining (skipWhitespace L) = drop n (remaining L)"
proof (induction L rule: skipWhitespace.induct)
  case (1 L)
  consider "isspace (peek L)" | "\<not> isspace (peek L)" "peek L = CHR ''#''"
    | "\<not> isspace (peek L)" "peek L \<noteq> CHR ''#''" by blast
  then show ?case
  proof cases
    case 1
    with "1.IH"(1) obtain n where "remaining (skipWhitespace (advance L)) = drop n (remaining (advance L))"
      by auto
    then have "remaining (skipWhitespace L) = drop (Suc n) (remaining L)"
      using 1 by (simp add: skipWhitespace_space remaining_advance drop_Suc)
    then show ?thesis by blast
  next
    case 2
    with "1.IH"(2) obtain n where
      "remaining (skipWhitespace (advanceWhile inComment L)) = drop n (remaining (advanceWhile inComment L))"
      by auto
    moreover have "remaining (advanceWhile inComment L) =
        drop (length (takeWhile inComment (remaining L))) (remaining L)"
      by (simp add: remaining_advanceWhile dropWhile_eq_drop)
    ultimately have "remaining (skipWhitespace L) =
        drop (n + length (takeWhile inComment (remaining L))) (remaining L)"
      using 2 by (simp add: skipWhitespace_comment)
    then show ?thesis by blast
  next
    case 3
    then have "remaining (skipWhitespace L) = drop 0 (remaining L)"
      by (simp add: skipWhitespace_stop)
    then show ?thesis by blast
  qed
qed

lemma skipWhitespace_strip:
  "CHR 0x00 \<notin> set (remaining L) \<Longrightarrow> strip (remaining (skipWhitespace L)) = strip (remaining L)"
proof (induction L rule: skipWhitespace.induct)
  case (1 L)
  consider "isspace (peek L)" | "\<not> isspace (peek L)" "peek L = CHR ''#''"
    | "\<not> isspace (peek L)" "peek L \<noteq> CHR ''#''" by blast
  then show ?case
  proof cases
    case 1
    then obtain c cs where r: "remaining L = c # cs" and c: "isspace c"
      by (cases "remaining L") (auto simp: peek_remaining isspace_def)
    with "1.prems" have "CHR 0x00 \<notin> set (remaining (advance L))"
      by (simp add: remaining_advance)
    with "1.IH"(1) 1 have ih: "strip (remaining (skipWhitespace (advance L))) = strip (remaining (advance L))"
      by simp
    have "strip (remaining (skipWhitespace L)) = strip (remaining (skipWhitespace (advance L)))"
      using skipWhitespace_space [OF \<open>isspace (peek L)\<close>] by (rule arg_cong)
    also note ih
    also have "strip (remaining (advance L)) = strip (remaining L)"
      using r c by (simp add: remaining_advance)
    finally show ?thesis .
  next
    case 2
    then obtain cs where r: "remaining L = CHR ''#'' # cs"
      by (cases "remaining L") (auto simp: peek_remaining)
    have c: "remaining (advanceWhile inComment L) = dropWhile (\<lambda>c. c \<noteq> CHR 0x0A) cs"
    proof -
      have "dropWhile inComment cs = dropWhile (\<lambda>c. c \<noteq> CHR 0x0A) cs"
        using "1.prems" r by (intro dropWhile_cong) (auto simp: inComment_def)
      then show ?thesis by (simp add: remaining_advanceWhile r inComment_def)
    qed
    have "CHR 0x00 \<notin> set (remaining (advanceWhile inComment L))"
      using "1.prems" r unfolding c by (auto dest: set_dropWhileD)
    with "1.IH"(2) 2 have ih: "strip (remaining (skipWhitespace (advanceWhile inComment L))) =
        strip (remaining (advanceWhile inComment L))" by simp
    have "strip (remaining (skipWhitespace L)) =
        strip (remaining (skipWhitespace (advanceWhile inComment L)))"
      using skipWhitespace_comment [OF 2] by (rule arg_cong)
    also note ih
    also have "strip (remaining (advanceWhile inComment L)) = strip (remaining L)"
      using r c by (simp add: isspace_def)
    finally show ?thesis .
  next
    case 3
    then show ?thesis by (simp add: skipWhitespace_stop)
  qed
qed

lemma strip_plain_append:
  "\<forall>c \<in> set xs. \<not> isspace c \<and> c \<noteq> CHR ''#'' \<Longrightarrow> strip (xs @ ys) = xs @ strip ys"
  by (induction xs) auto


lemma atom_text:
  "tok_text (atom L k) = take (position L - startPosition L) (drop (startPosition L) (source L))"
  by (simp add: atom_def substr_def Let_def)

lemma kind_atom [simp]: "kind (atom L k) = k"
  by (simp add: atom_def Let_def)

lemma advance_inside:
  assumes "remaining L = c # cs"
  shows "position (advance L) = position L + 1" and "remaining (advance L) = cs"
    and "position (advance L) \<le> length (source L)"
proof -
  from assms have "position L < length (source L)"
    by (cases "position L < length (source L)") (auto simp: remaining_def)
  then show "position (advance L) = position L + 1" "position (advance L) \<le> length (source L)"
    by (simp_all add: advance_position)
  show "remaining (advance L) = cs" using assms by (simp add: remaining_advance)
qed

lemma take_length_takeWhile: "take (length (takeWhile P xs)) xs = takeWhile P xs"
  by (induction xs) auto

lemma peek_is_dot:
  "((case xs of [] \<Rightarrow> CHR 0x00 | c # cs \<Rightarrow> c) = CHR ''.'') = (xs \<noteq> [] \<and> hd xs = CHR ''.'')"
  by (cases xs) auto

lemma number_result:
  assumes sp: "startPosition S = position S" and le: "position S \<le> length (source S)"
  shows "kind (fst (number S)) =
           (if dropWhile isdigit (remaining S) \<noteq> [] \<and> hd (dropWhile isdigit (remaining S)) = CHR ''.''
            then TK_Float else TK_Integer)"
    and "tok_text (fst (number S)) =
           takeWhile isdigit (remaining S) @
           (if dropWhile isdigit (remaining S) \<noteq> [] \<and> hd (dropWhile isdigit (remaining S)) = CHR ''.''
            then CHR ''.'' # takeWhile isdigit (tl (dropWhile isdigit (remaining S))) else [])"
    and "source (snd (number S)) = source S"
    and "startPosition (snd (number S)) = position S"
    and "position (snd (number S)) = position S + length (tok_text (fst (number S)))"
    and "position (snd (number S)) \<le> length (source S)"
proof -
  let ?rest = "remaining S"
  let ?ds = "takeWhile isdigit ?rest"
  let ?after = "dropWhile isdigit ?rest"
  let ?L1 = "advanceWhile isdigit S"
  let ?float = "?after \<noteq> [] \<and> hd ?after = CHR ''.''"
  have r1: "remaining ?L1 = ?after" by (simp add: remaining_advanceWhile)
  have p1: "position ?L1 = position S + length ?ds" using le by (simp add: position_advanceWhile)
  have le1: "position ?L1 \<le> length (source S)" using le advanceWhile_position_le [of S isdigit] by simp
  have rest: "drop (position S) (source S) = ?rest" by (simp add: remaining_def)
  have pk: "(peek ?L1 = CHR ''.'') = ?float"
    unfolding peek_remaining r1 by (rule peek_is_dot)
  show "kind (fst (number S)) = (if ?float then TK_Float else TK_Integer)"
    unfolding pk [symmetric] by (simp add: number_def Let_def)
  show "source (snd (number S)) = source S"
    by (simp add: number_def Let_def)
  show "startPosition (snd (number S)) = position S"
    using sp by (simp add: number_def Let_def)
  have main: "tok_text (fst (number S)) =
      ?ds @ (if ?float then CHR ''.'' # takeWhile isdigit (tl ?after) else [])
      \<and> position (snd (number S)) = position S + length (tok_text (fst (number S)))
      \<and> position (snd (number S)) \<le> length (source S)"
  proof (cases ?float)
    case False
    with pk have "peek ?L1 \<noteq> CHR ''.''" by blast
    then have n: "number S = (atom ?L1 TK_Integer, ?L1)" by (simp add: number_def Let_def)
    have "tok_text (atom ?L1 TK_Integer) = ?ds"
      using sp p1 rest by (simp add: atom_text take_length_takeWhile)
    with n False p1 le1 show ?thesis by simp
  next
    case True
    then obtain as where after: "?after = CHR ''.'' # as" by (cases ?after) auto
    let ?La = "advance ?L1"
    let ?L2 = "advanceWhile isdigit ?La"
    let ?fs = "takeWhile isdigit as"
    from advance_inside [of ?L1 "CHR ''.''" as] r1 after
    have pa: "position ?La = position ?L1 + 1" and ra: "remaining ?La = as"
      and lea: "position ?La \<le> length (source ?La)" by simp_all
    have p2: "position ?L2 = position S + length ?ds + 1 + length ?fs"
      using lea pa p1 ra by (simp add: position_advanceWhile)
    have le2: "position ?L2 \<le> length (source S)"
      using lea advanceWhile_position_le [of ?La isdigit] by simp
    from True pk have "peek ?L1 = CHR ''.''" by blast
    then have n: "number S = (atom ?L2 TK_Float, ?L2)" by (simp add: number_def Let_def)
    have "take (length ?ds + 1 + length ?fs) (?ds @ CHR ''.'' # as) = ?ds @ CHR ''.'' # ?fs"
      by (simp add: take_length_takeWhile)
    moreover have "?rest = ?ds @ CHR ''.'' # as"
      using takeWhile_dropWhile_id [of isdigit ?rest] unfolding after by simp
    ultimately have "take (length ?ds + 1 + length ?fs) ?rest = ?ds @ CHR ''.'' # ?fs"
      by simp
    then have "tok_text (atom ?L2 TK_Float) = ?ds @ CHR ''.'' # ?fs"
      using sp p2 rest by (simp add: atom_text)
    with n True after p2 le2 show ?thesis by simp
  qed
  from main show "tok_text (fst (number S)) =
      ?ds @ (if ?float then CHR ''.'' # takeWhile isdigit (tl ?after) else [])"
    by (rule conjunct1)
  from main show "position (snd (number S)) = position S + length (tok_text (fst (number S)))"
    by blast
  from main show "position (snd (number S)) \<le> length (source S)"
    by blast
qed

text \<open>
  \<open>advanced L L'\<close>: the lexer \<open>L'\<close> is \<open>L\<close> after some more characters have been consumed,
  still within the source and with the same token start.
\<close>

definition advanced :: "Lexer \<Rightarrow> Lexer \<Rightarrow> bool" where
  "advanced L L' =
     (source L' = source L \<and> startPosition L' = startPosition L
      \<and> position L \<le> position L' \<and> position L' \<le> length (source L))"

lemma advanced_refl: "position L \<le> length (source L) \<Longrightarrow> advanced L L"
  by (simp add: advanced_def)

lemma advanced_trans: "advanced a b \<Longrightarrow> advanced b c \<Longrightarrow> advanced a c"
  by (auto simp: advanced_def)

lemma advanced_advance: "position L \<le> length (source L) \<Longrightarrow> advanced L (advance L)"
  by (auto simp: advanced_def advance_position)

lemma advanced_advanceWhile: "position L \<le> length (source L) \<Longrightarrow> advanced L (advanceWhile p L)"
  using advanceWhile_position_le [of L p] advanceWhile_position_mono [of L p]
  by (simp add: advanced_def)

lemma advanced_le: "advanced L L' \<Longrightarrow> position L' \<le> length (source L')"
  by (simp add: advanced_def)

lemma advance_strict:
  "position L < length (source L) \<Longrightarrow> position (advance L) = position L + 1"
  by (simp add: advance_position)

lemma identifierTok_snd: "snd (identifierTok L) = advanceWhile inIdentifier L"
  by (simp add: identifierTok_def Let_def)

lemma identifierTok_text:
  "tok_text (fst (identifierTok L)) = tok_text (atom (snd (identifierTok L)) k)"
  by (simp add: identifierTok_def Let_def atom_text)

lemma identifierTok_not_EOF: "kind (fst (identifierTok L)) \<noteq> TK_EndOfFile"
  by (simp add: identifierTok_def Let_def)

lemma switchToken_snd:
  "snd (switchToken c L') =
     (if (c = CHR ''-'' \<and> peek L' = CHR ''>'') \<or> (c = CHR ''='' \<and> peek L' = CHR ''='')
         \<or> (c = CHR ''!'' \<and> peek L' = CHR ''='')
      then advance L' else L')"
  by (simp add: switchToken_def Let_def)

lemma switchToken_text:
  "tok_text (fst (switchToken c L')) = tok_text (atom (snd (switchToken c L')) k)"
  by (simp add: switchToken_def Let_def atom_text)

lemma switchToken_not_EOF: "kind (fst (switchToken c L')) \<noteq> TK_EndOfFile"
  by (simp add: switchToken_def Let_def)

lemma number_text: "tok_text (fst (number L)) = tok_text (atom (snd (number L)) k)"
  by (simp add: number_def Let_def atom_text split: prod.splits)

lemma number_not_EOF: "kind (fst (number L)) \<noteq> TK_EndOfFile"
  by (simp add: number_def Let_def split: prod.splits)

lemma stringTok_result:
  "kind (fst (stringTok L)) = TK_String"
  "snd (stringTok L) =
     (if peek (advanceWhile inString (advance L)) = CHR 0x22
      then advance (advanceWhile inString (advance L))
      else advanceWhile inString (advance L))"
  by (simp_all add: stringTok_def Let_def)

lemma number_snd:
  "snd (number L) =
     (if peek (advanceWhile isdigit L) = CHR ''.''
      then advanceWhile isdigit (advance (advanceWhile isdigit L))
      else advanceWhile isdigit L)"
  by (simp add: number_def Let_def)

lemma peek_inside: "peek L \<noteq> CHR 0x00 \<Longrightarrow> position L < length (source L)"
  by (auto simp: peek_def split: if_splits)

lemma peek_startPosition_update [simp]: "peek (L\<lparr>startPosition := n\<rparr>) = peek L"
  by (simp add: peek_def)

lemma nextToken_advanced:
  assumes "kind (fst (nextToken L0)) \<noteq> TK_EndOfFile"
  defines "S \<equiv> (skipWhitespace L0)\<lparr>startPosition := position (skipWhitespace L0)\<rparr>"
  shows "position S < length (source S)" and "advanced (advance S) (snd (nextToken L0))"
proof -
  have pS: "peek S = peek (skipWhitespace L0)" by (simp add: S_def)
  have nz: "peek S \<noteq> CHR 0x00"
    using assms(1) unfolding nextToken_def S_def [symmetric] Let_def
    by (auto split: if_splits)
  then show inside: "position S < length (source S)" by (rule peek_inside)
  then have a1: "position (advance S) \<le> length (source (advance S))"
    by (simp add: advance_position)
  have digit: "advanced (advance S) (snd (number S))" if d: "isdigit (peek S)"
  proof -
    have "remaining S \<noteq> []" using inside by (simp add: remaining_def)
    then obtain c cs where r: "remaining S = c # cs" by (cases "remaining S") auto
    with d have c: "isdigit c" by (simp add: peek_remaining)
    have "advanceWhile isdigit S = advanceWhile isdigit (advance S)"
      using inside d by (rule advanceWhile_step)
    then have eq: "snd (number S) =
       (if peek (advanceWhile isdigit (advance S)) = CHR ''.''
        then advanceWhile isdigit (advance (advanceWhile isdigit (advance S)))
        else advanceWhile isdigit (advance S))"
      by (simp add: number_snd)
    have 1: "advanced (advance S) (advanceWhile isdigit (advance S))"
      using a1 by (rule advanced_advanceWhile)
    have 2: "advanced (advanceWhile isdigit (advance S))
               (advanceWhile isdigit (advance (advanceWhile isdigit (advance S))))"
      using advanced_le [OF 1]
      by (blast intro: advanced_trans advanced_advance advanced_advanceWhile advanced_le)
    show ?thesis unfolding eq using 1 2 by (auto intro: advanced_trans)
  qed
  have str: "advanced (advance S) (snd (stringTok S))"
  proof -
    have 1: "advanced (advance S) (advanceWhile inString (advance S))"
      using a1 by (rule advanced_advanceWhile)
    have 2: "advanced (advanceWhile inString (advance S))
               (advance (advanceWhile inString (advance S)))"
      using advanced_le [OF 1] by (rule advanced_advance)
    show ?thesis unfolding stringTok_result using 1 2 by (auto intro: advanced_trans)
  qed
  have ident: "advanced (advance S) (snd (identifierTok (advance S)))"
    using advanced_advanceWhile [OF a1] by (simp add: identifierTok_snd)
  have sw: "advanced (advance S) (snd (switchToken c (advance S)))" for c
    using advanced_refl [OF a1] advanced_advance [OF a1] by (simp add: switchToken_snd)
  show "advanced (advance S) (snd (nextToken L0))"
    using nz digit str ident sw
    unfolding nextToken_def S_def [symmetric] Let_def
    by (auto split: if_splits)
qed


lemma skipWhitespace_position_mono: "position L \<le> position (skipWhitespace L)"
proof (induction L rule: skipWhitespace.induct)
  case (1 L)
  consider "isspace (peek L)" | "\<not> isspace (peek L)" "peek L = CHR ''#''"
    | "\<not> isspace (peek L)" "peek L \<noteq> CHR ''#''" by blast
  then show ?case
  proof cases
    case 1
    have "position L \<le> position (advance L)" by (simp add: advance_position)
    also have "\<dots> \<le> position (skipWhitespace (advance L))" using "1.IH"(1) 1 by simp
    finally show ?thesis using skipWhitespace_space [OF 1] by simp
  next
    case 2
    have "position L \<le> position (advanceWhile inComment L)" by (rule advanceWhile_position_mono)
    also have "\<dots> \<le> position (skipWhitespace (advanceWhile inComment L))"
      using "1.IH"(2) 2 by simp
    finally show ?thesis using skipWhitespace_comment [OF 2] by simp
  next
    case 3
    then show ?thesis by (simp add: skipWhitespace_stop)
  qed
qed

lemma nextToken_measure:
  assumes "kind (fst (nextToken L)) \<noteq> TK_EndOfFile"
  shows "length (source (snd (nextToken L))) - position (snd (nextToken L))
           < length (source L) - position L"
proof -
  let ?S = "(skipWhitespace L)\<lparr>startPosition := position (skipWhitespace L)\<rparr>"
  from nextToken_advanced [OF assms]
  have inside: "position ?S < length (source ?S)" and a: "advanced (advance ?S) (snd (nextToken L))"
    by simp_all
  have "position (advance ?S) = position ?S + 1" using inside by (rule advance_strict)
  with a have "position ?S < position (snd (nextToken L))"
    "position (snd (nextToken L)) \<le> length (source L)" "source (snd (nextToken L)) = source L"
    by (simp_all add: advanced_def)
  moreover have "position L \<le> position ?S" using skipWhitespace_position_mono [of L] by simp
  ultimately show ?thesis using inside by simp
qed

text \<open>Lexing to exhaustion: the tokens up to and including the end-of-file token.\<close>

function lexAll :: "Lexer \<Rightarrow> Token list" where
  "lexAll L =
     (let (t, L') = nextToken L
      in if kind t = TK_EndOfFile then [t] else t # lexAll L')"
  by pat_completeness auto
termination
proof (relation "measure (\<lambda>L. length (source L) - position L)")
  show "wf (measure (\<lambda>L. length (source L) - position L))" by simp
next
  fix L :: Lexer and x :: "Token \<times> Lexer" and t L'
  assume "x = nextToken L" and "(t, L') = x" and "kind t \<noteq> TK_EndOfFile"
  then have "kind (fst (nextToken L)) \<noteq> TK_EndOfFile" and "L' = snd (nextToken L)"
    by (metis fst_conv, metis snd_conv)
  with nextToken_measure [of L]
  show "(L', L) \<in> measure (\<lambda>L. length (source L) - position L)" by simp
qed

declare lexAll.simps [simp del]

section \<open>Semantic types (src/sema/Type.h)\<close>

text \<open>
  \<^verbatim>\<open>enum class TypeKind\<close>; the scope is written as the prefix \<open>Kind_\<close>.

  Modelled from the spec: \<^verbatim>\<open>ArrayType\<close> is used by the type checker and the code
  generator but is not declared in Type.h, and the enumeration has no member for it.
  The spec lists "array of T" as a variant of its own, beside the scalars, so the model
  gives it a kind of its own, \<open>Kind_Array\<close>, and one field, \<^verbatim>\<open>elementType\<close>.
\<close>

datatype TypeKind =
    Kind_Void | Kind_Int | Kind_Float | Kind_Bool | Kind_String | Kind_Struct
  | Kind_Function | Kind_TypeVariable | Kind_Array

text \<open>
  The subclasses of \<^verbatim>\<open>struct Type\<close>. \<^verbatim>\<open>StructType\<close> has the fields \<^verbatim>\<open>name\<close> and
  \<^verbatim>\<open>fields\<close> (name and type, in declaration order), \<^verbatim>\<open>FunctionType\<close> has
  \<^verbatim>\<open>returnType\<close> and \<^verbatim>\<open>paramTypes\<close>. The source shares type objects through
  \<^verbatim>\<open>shared_ptr\<close>; nothing compares or mutates them, so the model holds them by value.
\<close>

datatype Type =
    VoidType | IntType | FloatType | BoolType | StringType
  | StructType string "(string \<times> Type) list"
  | FunctionType Type "Type list"
  | ArrayType Type

fun typeKind :: "Type \<Rightarrow> TypeKind" where
  "typeKind VoidType = Kind_Void"
| "typeKind IntType = Kind_Int"
| "typeKind FloatType = Kind_Float"
| "typeKind BoolType = Kind_Bool"
| "typeKind StringType = Kind_String"
| "typeKind (StructType n fs) = Kind_Struct"
| "typeKind (FunctionType r ps) = Kind_Function"
| "typeKind (ArrayType t) = Kind_Array"

text \<open>\<^verbatim>\<open>StructType::getMemberType\<close>: the type of the first field of that name, or null.\<close>

fun getMemberType :: "(string \<times> Type) list \<Rightarrow> string \<Rightarrow> Type option" where
  "getMemberType [] memberName = None"
| "getMemberType (f # fs) memberName =
     (if fst f = memberName then Some (snd f) else getMemberType fs memberName)"

text \<open>
  \<^verbatim>\<open>StructType::getMemberIndex\<close>: the loop \<^verbatim>\<open>for (int i = 0; i < fields.size(); ++i)\<close>,
  here from the index \<open>i\<close> of the first field of the list on; \<open>-1\<close> when no field has the
  name.
\<close>

fun getMemberIndex_from :: "int \<Rightarrow> (string \<times> Type) list \<Rightarrow> string \<Rightarrow> int" where
  "getMemberIndex_from i [] memberName = -1"
| "getMemberIndex_from i (f # fs) memberName =
     (if fst f = memberName then i else getMemberIndex_from (i + 1) fs memberName)"

definition getMemberIndex :: "(string \<times> Type) list \<Rightarrow> string \<Rightarrow> int" where
  "getMemberIndex fs memberName = getMemberIndex_from 0 fs memberName"

section \<open>Abstract syntax (src/parser/AST.h)\<close>

text \<open>
  Expressions. The first field of every node is the \<^verbatim>\<open>type\<close> slot of \<^verbatim>\<open>struct Expr\<close>,
  a \<^verbatim>\<open>shared_ptr<Type>\<close> that is null (\<open>None\<close>) until the type checker fills it. A
  literal holds \<^verbatim>\<open>value\<close>, \<^verbatim>\<open>isFloat\<close>, \<^verbatim>\<open>isBool\<close>, \<^verbatim>\<open>isString\<close>.

  Modelled from the spec: \<^verbatim>\<open>IndexExpr\<close> and \<^verbatim>\<open>ArrayLiteralExpr\<close> are built by the
  parser and visited by the type checker and the code generator, but AST.h under src
  does not declare them. Their fields are the ones those uses name (\<^verbatim>\<open>object\<close> and
  \<^verbatim>\<open>index\<close>; \<^verbatim>\<open>elements\<close>), which are the spec's \<open>Index { object, index }\<close> and
  \<open>ArrayLiteral { elements }\<close>.
\<close>

datatype Expr =
    LiteralExpr "Type option" string bool bool bool
  | VariableExpr "Type option" string
  | BinaryExpr "Type option" string Expr Expr
  | CallExpr "Type option" string "Expr list"
  | MemberAccessExpr "Type option" Expr string
  | IndexExpr "Type option" Expr Expr
  | ArrayLiteralExpr "Type option" "Expr list"

fun expr_type :: "Expr \<Rightarrow> Type option" where
  "expr_type (LiteralExpr ty v isFloat isBool isString) = ty"
| "expr_type (VariableExpr ty name) = ty"
| "expr_type (BinaryExpr ty op l r) = ty"
| "expr_type (CallExpr ty callee args) = ty"
| "expr_type (MemberAccessExpr ty obj member) = ty"
| "expr_type (IndexExpr ty obj idx) = ty"
| "expr_type (ArrayLiteralExpr ty elements) = ty"

text \<open>
  Statements. A \<^verbatim>\<open>Block\<close> is its list of statements; the branches of an \<^verbatim>\<open>IfStmt\<close>, the
  body of a \<^verbatim>\<open>WhileStmt\<close> and the body of a \<^verbatim>\<open>FunctionStmt\<close> are \<^verbatim>\<open>unique_ptr<Block>\<close>
  in the source, so they are statement lists here, optional where the pointer may be
  null (the else branch, the body of an extern function). An absent type name of a
  \<^verbatim>\<open>VarDeclStmt\<close> is the empty string, as in the source.
\<close>

datatype Stmt =
    ExprStmt Expr
  | ReturnStmt "Expr option"
  | Block "Stmt list"
  | IfStmt Expr "Stmt list" "Stmt list option"
  | WhileStmt Expr "Stmt list"
  | VarDeclStmt string string "Expr option"
  | FunctionStmt string "(string \<times> string) list" string "Stmt list option"
  | StructDeclStmt string "(string \<times> string) list"

section \<open>Parser (Parser.h, Parser.cpp)\<close>

text \<open>
  The state of \<^verbatim>\<open>class Parser\<close>: the lexer it reads from and the one token of
  look-ahead. The constructor primes the look-ahead.
\<close>

record Parser =
  lexer :: Lexer
  currentToken :: Token

text \<open>\<^verbatim>\<open>Parser::advance\<close> (\<open>advance\<close> is the lexer's function here).\<close>

definition Parser_advance :: "Parser \<Rightarrow> Parser" where
  "Parser_advance P = (let (t, L) = nextToken (lexer P) in \<lparr>lexer = L, currentToken = t\<rparr>)"


text \<open>\<^verbatim>\<open>Parser::match\<close>: whether the look-ahead has the kind; it is consumed if so.\<close>

definition Parser_match :: "TokenKind \<Rightarrow> Parser \<Rightarrow> bool \<times> Parser" where
  "Parser_match k P = (if kind (currentToken P) = k then (True, Parser_advance P) else (False, P))"

text \<open>
  A syntax error ends the process (\<^verbatim>\<open>exit(1)\<close>): the error \<open>Exit\<close>. The parsing
  functions are recursive on the tokens they have read; the model gives each a fuel
  argument, and \<open>OutOfFuel\<close> is the result when it runs out.
\<close>

datatype ParseError = Exit | OutOfFuel

text \<open>\<^verbatim>\<open>Parser::consume\<close>.\<close>

definition consume :: "TokenKind \<Rightarrow> Parser \<Rightarrow> ParseError + (Token \<times> Parser)" where
  "consume k P =
     (if kind (currentToken P) = k then Inr (currentToken P, Parser_advance P) else Inl Exit)"

text \<open>\<^verbatim>\<open>Parser::getPrecedence\<close>.\<close>

fun getPrecedence :: "TokenKind \<Rightarrow> int" where
  "getPrecedence TK_Star = 5"
| "getPrecedence TK_Slash = 5"
| "getPrecedence TK_Plus = 4"
| "getPrecedence TK_Minus = 4"
| "getPrecedence TK_LessThan = 3"
| "getPrecedence TK_GreaterThan = 3"
| "getPrecedence TK_EqualEqual = 2"
| "getPrecedence TK_NotEqual = 2"
| "getPrecedence TK_Equal = 1"
| "getPrecedence k = -1"

text \<open>
  \<^verbatim>\<open>parseExpression\<close>, \<^verbatim>\<open>parsePrimary\<close> and \<^verbatim>\<open>parseBinary\<close>. Two loops of
  \<^verbatim>\<open>parsePrimary\<close> are functions of their own: \<open>parseExprList\<close> is
  \<^verbatim>\<open>do { xs.push_back(parseExpression()); } while (match(Comma));\<close> (the arguments of a
  call, the elements of an array literal), \<open>parsePostfix\<close> is the \<^verbatim>\<open>while (true)\<close> loop
  over member accesses and indexings. The loop of \<^verbatim>\<open>parseBinary\<close> is its recursion on
  the new left side. Every node is built with a null type slot.
\<close>

fun parseExpression :: "nat \<Rightarrow> Parser \<Rightarrow> ParseError + (Expr \<times> Parser)"
  and parsePrimary :: "nat \<Rightarrow> Parser \<Rightarrow> ParseError + (Expr \<times> Parser)"
  and parseExprList :: "nat \<Rightarrow> Expr list \<Rightarrow> Parser \<Rightarrow> ParseError + (Expr list \<times> Parser)"
  and parsePostfix :: "nat \<Rightarrow> Expr \<Rightarrow> Parser \<Rightarrow> ParseError + (Expr \<times> Parser)"
  and parseBinary :: "nat \<Rightarrow> int \<Rightarrow> Expr \<Rightarrow> Parser \<Rightarrow> ParseError + (Expr \<times> Parser)"
where
  "parseExpression 0 P = Inl OutOfFuel"
| "parseExpression (Suc n) P =
     (case parsePrimary n P of
        Inl err \<Rightarrow> Inl err
      | Inr (lhs, P1) \<Rightarrow> parseBinary n 0 lhs P1)"
| "parsePrimary 0 P = Inl OutOfFuel"
| "parsePrimary (Suc n) P =
     (case
        (if kind (currentToken P) = TK_Identifier then
           (let name = tok_text (currentToken P);
                P1 = Parser_advance P;
                (isCall, P2) = Parser_match TK_LParen P1
            in if isCall then
                 (case (if kind (currentToken P2) \<noteq> TK_RParen then parseExprList n [] P2
                        else Inr ([], P2)) of
                    Inl err \<Rightarrow> Inl err
                  | Inr (args, P3) \<Rightarrow>
                      (case consume TK_RParen P3 of
                         Inl err \<Rightarrow> Inl err
                       | Inr (t, P4) \<Rightarrow> Inr (CallExpr None name args, P4)))
               else Inr (VariableExpr None name, P2))
         else if kind (currentToken P) = TK_Integer then
           Inr (LiteralExpr None (tok_text (currentToken P)) False False False, Parser_advance P)
         else if kind (currentToken P) = TK_Float then
           Inr (LiteralExpr None (tok_text (currentToken P)) True False False, Parser_advance P)
         else if kind (currentToken P) = TK_True then
           Inr (LiteralExpr None ''true'' False True False, Parser_advance P)
         else if kind (currentToken P) = TK_False then
           Inr (LiteralExpr None ''false'' False True False, Parser_advance P)
         else if kind (currentToken P) = TK_String then
           Inr (LiteralExpr None (tok_text (currentToken P)) False False True, Parser_advance P)
         else
           (let (isArray, P1) = Parser_match TK_LBracket P
            in if isArray then
                 (case (if kind (currentToken P1) \<noteq> TK_RBracket then parseExprList n [] P1
                        else Inr ([], P1)) of
                    Inl err \<Rightarrow> Inl err
                  | Inr (elements, P2) \<Rightarrow>
                      (case consume TK_RBracket P2 of
                         Inl err \<Rightarrow> Inl err
                       | Inr (t, P3) \<Rightarrow> Inr (ArrayLiteralExpr None elements, P3)))
               else
                 (let (isGroup, P2) = Parser_match TK_LParen P1
                  in if isGroup then
                       (case parseExpression n P2 of
                          Inl err \<Rightarrow> Inl err
                        | Inr (e, P3) \<Rightarrow>
                            (case consume TK_RParen P3 of
                               Inl err \<Rightarrow> Inl err
                             | Inr (t, P4) \<Rightarrow> Inr (e, P4)))
                     else Inl Exit)))
      of
        Inl err \<Rightarrow> Inl err
      | Inr (lhs, P') \<Rightarrow> parsePostfix n lhs P')"
| "parseExprList 0 acc P = Inl OutOfFuel"
| "parseExprList (Suc n) acc P =
     (case parseExpression n P of
        Inl err \<Rightarrow> Inl err
      | Inr (e, P1) \<Rightarrow>
          (let (more, P2) = Parser_match TK_Comma P1
           in if more then parseExprList n (acc @ [e]) P2 else Inr (acc @ [e], P2)))"
| "parsePostfix 0 lhs P = Inl OutOfFuel"
| "parsePostfix (Suc n) lhs P =
     (let (isDot, P1) = Parser_match TK_Dot P
      in if isDot then
           (case consume TK_Identifier P1 of
              Inl err \<Rightarrow> Inl err
            | Inr (member, P2) \<Rightarrow> parsePostfix n (MemberAccessExpr None lhs (tok_text member)) P2)
         else
           (let (isIndex, P2) = Parser_match TK_LBracket P1
            in if isIndex then
                 (case parseExpression n P2 of
                    Inl err \<Rightarrow> Inl err
                  | Inr (index, P3) \<Rightarrow>
                      (case consume TK_RBracket P3 of
                         Inl err \<Rightarrow> Inl err
                       | Inr (t, P4) \<Rightarrow> parsePostfix n (IndexExpr None lhs index) P4))
               else Inr (lhs, P2)))"
| "parseBinary 0 exprPrec lhs P = Inl OutOfFuel"
| "parseBinary (Suc n) exprPrec lhs P =
     (let rangePrec = getPrecedence (kind (currentToken P))
      in if rangePrec < exprPrec then Inr (lhs, P)
         else
           (let opToken = currentToken P;
                P1 = Parser_advance P
            in case parsePrimary n P1 of
                 Inl err \<Rightarrow> Inl err
               | Inr (rhs, P2) \<Rightarrow>
                   (let nextPrec = getPrecedence (kind (currentToken P2))
                    in case (if rangePrec < nextPrec then parseBinary n (rangePrec + 1) rhs P2
                             else Inr (rhs, P2)) of
                         Inl err \<Rightarrow> Inl err
                       | Inr (rhs', P3) \<Rightarrow>
                           parseBinary n exprPrec
                             (BinaryExpr None (tok_text opToken) lhs rhs') P3)))"

text \<open>
  The right operand that the loop of \<^verbatim>\<open>parseBinary\<close> takes for an operator of the level
  \<open>rangePrec\<close>, once the operator has been consumed: the lines
  \<^verbatim>\<open>auto rhs = parsePrimary(); int nextPrec = getPrecedence(currentToken.kind);
  if (rangePrec < nextPrec) rhs = parseBinary(rangePrec + 1, std::move(rhs));\<close>
  (lemma \<open>parseBinary_rightOperand\<close> reads \<open>parseBinary\<close> through it).
\<close>

definition rightOperand :: "nat \<Rightarrow> int \<Rightarrow> Parser \<Rightarrow> ParseError + (Expr \<times> Parser)" where
  "rightOperand n rangePrec P1 =
     (case parsePrimary n P1 of
        Inl err \<Rightarrow> Inl err
      | Inr (rhs, P2) \<Rightarrow>
          (let nextPrec = getPrecedence (kind (currentToken P2))
           in if rangePrec < nextPrec then parseBinary n (rangePrec + 1) rhs P2
              else Inr (rhs, P2)))"





section \<open>Type checker (TypeChecker.h, TypeChecker.cpp)\<close>

text \<open>
  The state of \<^verbatim>\<open>class TypeChecker\<close>. Both maps are \<^verbatim>\<open>std::map\<close>s from names; the
  struct registry holds \<^verbatim>\<open>StructType\<close>s only. Every \<^verbatim>\<open>operator[]\<close> read of the source
  is behind a \<^verbatim>\<open>count\<close> test, so no read inserts a key. The messages written to
  \<^verbatim>\<open>std::cerr\<close> are not part of the model.
\<close>

record TypeChecker =
  symbolTable :: "string \<rightharpoonup> Type"
  currentFunctionReturnType :: "Type option"
  structDefs :: "string \<rightharpoonup> Type"

definition TypeChecker_new :: TypeChecker where
  "TypeChecker_new =
     \<lparr>symbolTable = Map.empty, currentFunctionReturnType = None, structDefs = Map.empty\<rparr>"

text \<open>\<^verbatim>\<open>TypeChecker::resolveType\<close>, over the struct registry.\<close>

function resolveType :: "(string \<rightharpoonup> Type) \<Rightarrow> string \<Rightarrow> Type" where
  "resolveType defs name =
     (if name = ''int'' then IntType
      else if name = ''float'' then FloatType
      else if name = ''bool'' then BoolType
      else if name = ''string'' then StringType
      else if name = ''void'' then VoidType
      else (case defs name of
              Some st \<Rightarrow> st
            | None \<Rightarrow>
                if length name > 2 \<and> substr name (length name - 2) 2 = ''[]''
                then ArrayType (resolveType defs (substr name 0 (length name - 2)))
                else VoidType))"
  by pat_completeness auto
termination
  by (relation "measure (\<lambda>(defs, name). length name)") (auto simp: substr_def)

declare resolveType.simps [simp del]

text \<open>The test of \<^verbatim>\<open>visit(BinaryExpr&)\<close> on the left side of an assignment.\<close>

fun isValidLHS :: "Expr \<Rightarrow> bool" where
  "isValidLHS (VariableExpr ty name) = True"
| "isValidLHS (MemberAccessExpr ty obj member) = True"
| "isValidLHS (IndexExpr ty obj idx) = True"
| "isValidLHS e = False"

text \<open>
  The visits of expressions. They write the type slots and read the symbol table; they
  change nothing in the checker, so the model returns the annotated expression.
  Where the source dereferences a type slot it has just visited
  (\<^verbatim>\<open>expr.left->type->kind\<close>, \<^verbatim>\<open>expr.elements[0]->type\<close>) the model reads it with
  \<open>the\<close>; lemma \<open>visitExpr_sets_type\<close> shows that the slot is never null there.
\<close>

fun visitExpr :: "TypeChecker \<Rightarrow> Expr \<Rightarrow> Expr" where
  "visitExpr tc (LiteralExpr ty v isFloat isBool isString) =
     LiteralExpr
       (Some (if isBool then BoolType
              else if isString then StringType
              else if isFloat then FloatType
              else IntType))
       v isFloat isBool isString"
| "visitExpr tc (VariableExpr ty name) =
     VariableExpr
       (case symbolTable tc name of Some t \<Rightarrow> Some t | None \<Rightarrow> Some VoidType)
       name"
| "visitExpr tc (BinaryExpr ty op l r) =
     (if op = ''='' then
        (if \<not> isValidLHS l then BinaryExpr (Some VoidType) op l r
         else (let l' = visitExpr tc l; r' = visitExpr tc r
               in BinaryExpr (expr_type r') op l' r'))
      else
        (let l' = visitExpr tc l; r' = visitExpr tc r
         in if typeKind (the (expr_type l')) = Kind_Int \<and> typeKind (the (expr_type r')) = Kind_Int
            then BinaryExpr (Some IntType) op l' r'
            else BinaryExpr (expr_type l') op l' r'))"
| "visitExpr tc (CallExpr ty callee args) =
     (let args' = map (visitExpr tc) args
      in case symbolTable tc callee of
           Some (FunctionType ret ps) \<Rightarrow> CallExpr (Some ret) callee args'
         | Some t \<Rightarrow> CallExpr (Some VoidType) callee args'
         | None \<Rightarrow> CallExpr (Some VoidType) callee args')"
| "visitExpr tc (MemberAccessExpr ty obj member) =
     (let obj' = visitExpr tc obj
      in case expr_type obj' of
           Some (StructType n fs) \<Rightarrow>
             (case getMemberType fs member of
                None \<Rightarrow> MemberAccessExpr (Some VoidType) obj' member
              | Some memberType \<Rightarrow> MemberAccessExpr (Some memberType) obj' member)
         | t \<Rightarrow> MemberAccessExpr (Some VoidType) obj' member)"
| "visitExpr tc (IndexExpr ty obj idx) =
     (let obj' = visitExpr tc obj; idx' = visitExpr tc idx
      in case expr_type obj' of
           Some (ArrayType elementType) \<Rightarrow> IndexExpr (Some elementType) obj' idx'
         | t \<Rightarrow> IndexExpr (Some VoidType) obj' idx')"
| "visitExpr tc (ArrayLiteralExpr ty elements) =
     (if elements = [] then ArrayLiteralExpr (Some (ArrayType IntType)) elements
      else (let elements' = map (visitExpr tc) elements;
                firstType = the (expr_type (hd elements'))
            in ArrayLiteralExpr (Some (ArrayType firstType)) elements'))"

text \<open>
  The loop of \<^verbatim>\<open>visit(FunctionStmt&)\<close> that binds each parameter name to its resolved
  type (a later parameter of the same name overwrites an earlier one).
\<close>

fun bindParams :: "(string \<rightharpoonup> Type) \<Rightarrow> (string \<times> string) list \<Rightarrow> Type list \<Rightarrow> (string \<rightharpoonup> Type)" where
  "bindParams tab (p # ps) (t # ts) = bindParams (tab(fst p \<mapsto> t)) ps ts"
| "bindParams tab ps ts = tab"

text \<open>
  The visits of statements, and of a block (\<^verbatim>\<open>visit(Block&)\<close>, which is also the loop of
  \<^verbatim>\<open>TypeChecker::check\<close> over the module). They return the annotated statement and the
  checker after the visit.
\<close>

fun visitStmt :: "TypeChecker \<Rightarrow> Stmt \<Rightarrow> Stmt \<times> TypeChecker"
  and visitBlock :: "TypeChecker \<Rightarrow> Stmt list \<Rightarrow> Stmt list \<times> TypeChecker" where
  "visitStmt tc (ExprStmt e) = (ExprStmt (visitExpr tc e), tc)"
| "visitStmt tc (ReturnStmt None) = (ReturnStmt None, tc)"
| "visitStmt tc (ReturnStmt (Some v)) = (ReturnStmt (Some (visitExpr tc v)), tc)"
| "visitStmt tc (Block ss) = (let (ss', tc') = visitBlock tc ss in (Block ss', tc'))"
| "visitStmt tc (IfStmt c thenBranch None) =
     (let c' = visitExpr tc c;
          (thenBranch', tc1) = visitBlock tc thenBranch
      in (IfStmt c' thenBranch' None, tc1))"
| "visitStmt tc (IfStmt c thenBranch (Some elseBranch)) =
     (let c' = visitExpr tc c;
          (thenBranch', tc1) = visitBlock tc thenBranch;
          (elseBranch', tc2) = visitBlock tc1 elseBranch
      in (IfStmt c' thenBranch' (Some elseBranch'), tc2))"
| "visitStmt tc (WhileStmt c body) =
     (let c' = visitExpr tc c;
          (body', tc1) = visitBlock tc body
      in (WhileStmt c' body', tc1))"
| "visitStmt tc (FunctionStmt name params returnTypeName None) =
     (let paramTypes = map (\<lambda>p. resolveType (structDefs tc) (snd p)) params;
          returnType = resolveType (structDefs tc) returnTypeName;
          funcType = FunctionType returnType paramTypes;
          tc1 = tc\<lparr>symbolTable := (symbolTable tc)(name \<mapsto> funcType)\<rparr>
      in (FunctionStmt name params returnTypeName None, tc1))"
| "visitStmt tc (FunctionStmt name params returnTypeName (Some body)) =
     (let paramTypes = map (\<lambda>p. resolveType (structDefs tc) (snd p)) params;
          returnType = resolveType (structDefs tc) returnTypeName;
          funcType = FunctionType returnType paramTypes;
          tc1 = tc\<lparr>symbolTable := (symbolTable tc)(name \<mapsto> funcType)\<rparr>;
          tc2 = tc1\<lparr>currentFunctionReturnType := Some returnType\<rparr>;
          oldTable = symbolTable tc2;
          tc3 = tc2\<lparr>symbolTable := bindParams (symbolTable tc2) params paramTypes\<rparr>;
          (body', tc4) = visitBlock tc3 body;
          tc5 = tc4\<lparr>symbolTable := oldTable\<rparr>
      in (FunctionStmt name params returnTypeName (Some body'), tc5))"
| "visitStmt tc (VarDeclStmt name typeName None) =
     (let ty = (if typeName \<noteq> [] then resolveType (structDefs tc) typeName else VoidType)
      in (VarDeclStmt name typeName None,
          tc\<lparr>symbolTable := (symbolTable tc)(name \<mapsto> ty)\<rparr>))"
| "visitStmt tc (VarDeclStmt name typeName (Some init)) =
     (let init' = visitExpr tc init;
          ty = (if typeName \<noteq> [] then resolveType (structDefs tc) typeName
                else the (expr_type init'))
      in (VarDeclStmt name typeName (Some init'),
          tc\<lparr>symbolTable := (symbolTable tc)(name \<mapsto> ty)\<rparr>))"
| "visitStmt tc (StructDeclStmt name fs) =
     (let fields' = map (\<lambda>f. (fst f, resolveType (structDefs tc) (snd f))) fs;
          st = StructType name fields'
      in (StructDeclStmt name fs, tc\<lparr>structDefs := (structDefs tc)(name \<mapsto> st)\<rparr>))"
| "visitBlock tc [] = ([], tc)"
| "visitBlock tc (s # ss) =
     (let (s', tc1) = visitStmt tc s;
          (ss', tc2) = visitBlock tc1 ss
      in (s' # ss', tc2))"

text \<open>\<^verbatim>\<open>TypeChecker::check\<close>: every statement of the module, in order.\<close>

definition check :: "TypeChecker \<Rightarrow> Stmt list \<Rightarrow> Stmt list \<times> TypeChecker" where
  "check tc stmts = visitBlock tc stmts"

text \<open>
  Two predicates on annotated expressions. \<open>allTyped\<close>: every node of the expression has
  a non-null type slot. \<open>annotated\<close>: the same, except that nothing is asked of the two
  sides of an assignment whose left side is not a \<^verbatim>\<open>VariableExpr\<close>, \<^verbatim>\<open>MemberAccessExpr\<close>
  or \<^verbatim>\<open>IndexExpr\<close>. \<open>stmtAll P\<close>: \<open>P\<close> holds of every expression that a statement
  holds, at any depth of blocks.
\<close>

fun allTyped :: "Expr \<Rightarrow> bool" where
  "allTyped (LiteralExpr ty v isFloat isBool isString) = (ty \<noteq> None)"
| "allTyped (VariableExpr ty name) = (ty \<noteq> None)"
| "allTyped (BinaryExpr ty op l r) = (ty \<noteq> None \<and> allTyped l \<and> allTyped r)"
| "allTyped (CallExpr ty callee args) = (ty \<noteq> None \<and> list_all allTyped args)"
| "allTyped (MemberAccessExpr ty obj member) = (ty \<noteq> None \<and> allTyped obj)"
| "allTyped (IndexExpr ty obj idx) = (ty \<noteq> None \<and> allTyped obj \<and> allTyped idx)"
| "allTyped (ArrayLiteralExpr ty elements) = (ty \<noteq> None \<and> list_all allTyped elements)"

fun annotated :: "Expr \<Rightarrow> bool" where
  "annotated (LiteralExpr ty v isFloat isBool isString) = (ty \<noteq> None)"
| "annotated (VariableExpr ty name) = (ty \<noteq> None)"
| "annotated (BinaryExpr ty op l r) =
     (ty \<noteq> None \<and> (if op = ''='' \<and> \<not> isValidLHS l then True else annotated l \<and> annotated r))"
| "annotated (CallExpr ty callee args) = (ty \<noteq> None \<and> list_all annotated args)"
| "annotated (MemberAccessExpr ty obj member) = (ty \<noteq> None \<and> annotated obj)"
| "annotated (IndexExpr ty obj idx) = (ty \<noteq> None \<and> annotated obj \<and> annotated idx)"
| "annotated (ArrayLiteralExpr ty elements) = (ty \<noteq> None \<and> list_all annotated elements)"

fun stmtAll :: "(Expr \<Rightarrow> bool) \<Rightarrow> Stmt \<Rightarrow> bool" where
  "stmtAll P (ExprStmt e) = P e"
| "stmtAll P (ReturnStmt None) = True"
| "stmtAll P (ReturnStmt (Some v)) = P v"
| "stmtAll P (Block ss) = list_all (stmtAll P) ss"
| "stmtAll P (IfStmt c thenBranch None) = (P c \<and> list_all (stmtAll P) thenBranch)"
| "stmtAll P (IfStmt c thenBranch (Some elseBranch)) =
     (P c \<and> list_all (stmtAll P) thenBranch \<and> list_all (stmtAll P) elseBranch)"
| "stmtAll P (WhileStmt c body) = (P c \<and> list_all (stmtAll P) body)"
| "stmtAll P (VarDeclStmt name typeName None) = True"
| "stmtAll P (VarDeclStmt name typeName (Some init)) = P init"
| "stmtAll P (FunctionStmt name params returnTypeName None) = True"
| "stmtAll P (FunctionStmt name params returnTypeName (Some body)) = list_all (stmtAll P) body"
| "stmtAll P (StructDeclStmt name fs) = True"

section \<open>A model of the IR that the code generator builds (the LLVM library)\<close>

text \<open>
  The code generator builds its output through the LLVM library, which is not part of
  the repository. The model records what the library is asked to build: the module is
  the list of its functions in the order of their creation, a function has a name, a
  return type, parameter types and the list of its basic blocks, and a basic block is
  the list of its instructions. What the model takes from the library's documentation:
  \<^item> types: \<^verbatim>\<open>void\<close>, integers of a bit width, \<^verbatim>\<open>double\<close>, the (opaque) pointer type and
    named struct types with their field types;
  \<^item> an IRBuilder appends each instruction to the end of its insertion block;
  \<^item> \<^verbatim>\<open>BasicBlock::getTerminator\<close> is the last instruction of the block if that is a
    return or a branch, and null otherwise;
  \<^item> \<^verbatim>\<open>Module::getFunction\<close> finds a function by name;
  \<^item> \<^verbatim>\<open>CreateRet(nullptr)\<close> builds \<^verbatim>\<open>ret void\<close>.
  The library's own assertions on ill-typed instructions are not modelled, and a
  function created under a name that is already taken keeps the requested name in the
  model (the library appends a numeric suffix to the later one). Nor is the constant
  folding of the builder: where every operand of an arithmetic instruction, a
  comparison or an address computation is a constant, the library returns the folded
  constant and inserts no instruction, while the model records the instruction that the
  code generator asks for. No statement below depends on the difference: they are about
  the functions of the module, the terminators of blocks and the struct registries.
\<close>

datatype LType = VoidTy | IntegerTy nat | DoubleTy | PointerTy | StructTy string "LType list"

text \<open>
  \<^verbatim>\<open>llvm::PointerType::get(elementType, 0)\<close>: with the opaque pointers of the LLVM
  version the repository names (18), the pointer type does not depend on the element
  type.
\<close>

definition PointerType_get :: "LType \<Rightarrow> LType" where
  "PointerType_get elementType = PointerTy"

fun isIntegerTy :: "LType \<Rightarrow> bool" where
  "isIntegerTy (IntegerTy w) = True"
| "isIntegerTy t = False"

fun getIntegerBitWidth :: "LType \<Rightarrow> nat" where
  "getIntegerBitWidth (IntegerTy w) = w"
| "getIntegerBitWidth t = 0"

text \<open>
  Values: constants, the result of an instruction (a register, numbered in the order of
  creation, with its type), and the arguments of a function. \<open>ConstantFP s\<close> is the
  \<^verbatim>\<open>double\<close> that \<^verbatim>\<open>std::stod\<close> reads from \<open>s\<close>.
\<close>

datatype Value =
    ConstantInt nat int
  | ConstantFP string
  | GlobalString string
  | Argument nat LType
  | Register nat LType
  | UndefValue LType
  | NullValue LType

fun Value_getType :: "Value \<Rightarrow> LType" where
  "Value_getType (ConstantInt w v) = IntegerTy w"
| "Value_getType (ConstantFP s) = DoubleTy"
| "Value_getType (GlobalString s) = PointerTy"
| "Value_getType (Argument i t) = t"
| "Value_getType (Register i t) = t"
| "Value_getType (UndefValue t) = t"
| "Value_getType (NullValue t) = t"

text \<open>
  Instructions. The first field of an instruction with a result is the number of its
  register. A store holds the stored value as the source passes it, which may be a null
  pointer. Blocks are referred to by their number in the store of blocks.
\<close>

datatype Instr =
    Alloca nat LType string
  | Store "Value option" Value
  | Load nat LType Value string
  | Add nat Value Value
  | Sub nat Value Value
  | Mul nat Value Value
  | SDiv nat Value Value
  | ICmpSLT nat Value Value
  | ICmpSGT nat Value Value
  | ICmpEQ nat Value Value
  | ICmpNE nat Value Value
  | Call nat string "Value list"
  | GEP nat LType Value "Value list"
  | Ret "Value option"
  | Br nat
  | CondBr Value nat nat

fun isTerminator :: "Instr \<Rightarrow> bool" where
  "isTerminator (Ret v) = True"
| "isTerminator (Br b) = True"
| "isTerminator (CondBr c t e) = True"
| "isTerminator i = False"

record BasicBlock =
  bb_name :: string
  bb_parent :: "nat option"
  instructions :: "Instr list"

record Function =
  fn_name :: string
  fn_returnType :: LType
  fn_paramTypes :: "LType list"
  fn_blocks :: "nat list"

text \<open>An \<^verbatim>\<open>AllocaInst\<close>: its register and the type it allocates.\<close>

record AllocaInst =
  alloca_reg :: nat
  allocatedType :: LType

definition AllocaInst_value :: "AllocaInst \<Rightarrow> Value" where
  "AllocaInst_value a = Register (alloca_reg a) PointerTy"

section \<open>Code generator (src/codegen/CodeGen.h, CodeGen.cpp)\<close>

text \<open>
  The state of \<^verbatim>\<open>class CodeGen\<close>: the module (its functions \<open>moduleFunctions\<close>, the strings of its global
  string constants, and the store of all basic blocks created, in a function or not
  yet), the insertion block of the builder, the three maps and \<^verbatim>\<open>lastValue\<close>.
  \<open>nextReg\<close> numbers the registers. The visits run inside \<^verbatim>\<open>generate\<close>, which sets
  the insertion block first, so the model's builder always has one.

  \<^verbatim>\<open>namedValues\<close> maps a name to an \<^verbatim>\<open>AllocaInst*\<close>. \<^verbatim>\<open>visit(VariableExpr&)\<close> reads it
  with \<^verbatim>\<open>operator[]\<close>, which inserts a null pointer for an unknown name; every reader
  treats such an entry as it treats a missing one, so the model keeps the name unbound.
\<close>

record CodeGen =
  moduleFunctions :: "Function list"
  globalStrings :: "string list"
  blocks :: "BasicBlock list"
  insertBlock :: nat
  namedValues :: "string \<rightharpoonup> AllocaInst"
  structTypes :: "string \<rightharpoonup> LType"
  structFieldIndices :: "string \<rightharpoonup> (string \<rightharpoonup> int)"
  lastValue :: "Value option"
  nextReg :: nat

definition CodeGen_new :: CodeGen where
  "CodeGen_new =
     \<lparr>moduleFunctions = [], globalStrings = [], blocks = [], insertBlock = 0,
      namedValues = Map.empty, structTypes = Map.empty, structFieldIndices = Map.empty,
      lastValue = None, nextReg = 0\<rparr>"

text \<open>
  What the code generator calls outside the repository and the model does not define:
  \<^verbatim>\<open>std::stoll\<close> (\<open>None\<close> when it throws), whether \<^verbatim>\<open>std::stod\<close> throws, and
  \<^verbatim>\<open>DataLayout::getTypeAllocSize\<close>. The model takes them as a parameter. An exception
  of \<^verbatim>\<open>stoll\<close> or \<^verbatim>\<open>stod\<close> is caught nowhere and ends the process; reading the parent of
  a block that is in no function, or the entry block of a function without blocks,
  dereferences a null pointer.
\<close>

record Library =
  stoll :: "string \<Rightarrow> int option"
  stod_throws :: "string \<Rightarrow> bool"
  getTypeAllocSize :: "LType \<Rightarrow> nat"

datatype CGError = UncaughtException | NullDereference

text \<open>The builder: \<open>emit\<close> appends an instruction to the insertion block.\<close>

definition emit :: "Instr \<Rightarrow> CodeGen \<Rightarrow> CodeGen" where
  "emit i cg =
     cg\<lparr>blocks := (blocks cg)[insertBlock cg :=
           (blocks cg ! insertBlock cg)\<lparr>instructions :=
              instructions (blocks cg ! insertBlock cg) @ [i]\<rparr>]\<rparr>"

definition SetInsertPoint :: "nat \<Rightarrow> CodeGen \<Rightarrow> CodeGen" where
  "SetInsertPoint bb cg = cg\<lparr>insertBlock := bb\<rparr>"

definition getTerminator :: "CodeGen \<Rightarrow> nat \<Rightarrow> Instr option" where
  "getTerminator cg bb =
     (let insts = instructions (blocks cg ! bb)
      in if insts = [] \<or> \<not> isTerminator (last insts) then None else Some (last insts))"

text \<open>
  The instructions with a result take the next register; the functions return the
  result with the new state.
\<close>

definition withResult :: "(nat \<Rightarrow> Instr) \<Rightarrow> LType \<Rightarrow> CodeGen \<Rightarrow> Value \<times> CodeGen" where
  "withResult mk ty cg =
     (Register (nextReg cg) ty, (emit (mk (nextReg cg)) cg)\<lparr>nextReg := nextReg cg + 1\<rparr>)"

definition CreateLoad :: "LType \<Rightarrow> Value \<Rightarrow> string \<Rightarrow> CodeGen \<Rightarrow> Value \<times> CodeGen" where
  "CreateLoad ty ptr name cg = withResult (\<lambda>r. Load r ty ptr name) ty cg"

definition CreateStore :: "Value option \<Rightarrow> Value \<Rightarrow> CodeGen \<Rightarrow> CodeGen" where
  "CreateStore v ptr cg = emit (Store v ptr) cg"

definition CreateGEP :: "LType \<Rightarrow> Value \<Rightarrow> Value list \<Rightarrow> CodeGen \<Rightarrow> Value \<times> CodeGen" where
  "CreateGEP ty ptr idxs cg = withResult (\<lambda>r. GEP r ty ptr idxs) PointerTy cg"

definition CreateICmpNE :: "Value \<Rightarrow> Value \<Rightarrow> CodeGen \<Rightarrow> Value \<times> CodeGen" where
  "CreateICmpNE l r cg = withResult (\<lambda>n. ICmpNE n l r) (IntegerTy 1) cg"

definition CreateCall :: "Function \<Rightarrow> Value list \<Rightarrow> CodeGen \<Rightarrow> Value \<times> CodeGen" where
  "CreateCall callee args cg =
     withResult (\<lambda>r. Call r (fn_name callee) args) (fn_returnType callee) cg"

definition CreateRet :: "Value option \<Rightarrow> CodeGen \<Rightarrow> CodeGen" where
  "CreateRet v cg = emit (Ret v) cg"

definition CreateBr :: "nat \<Rightarrow> CodeGen \<Rightarrow> CodeGen" where
  "CreateBr bb cg = emit (Br bb) cg"

definition CreateCondBr :: "Value \<Rightarrow> nat \<Rightarrow> nat \<Rightarrow> CodeGen \<Rightarrow> CodeGen" where
  "CreateCondBr c t e cg = emit (CondBr c t e) cg"

text \<open>\<^verbatim>\<open>CreateGlobalStringPtr\<close>: a new global string constant; the value is a pointer to it.\<close>

definition CreateGlobalStringPtr :: "string \<Rightarrow> CodeGen \<Rightarrow> Value \<times> CodeGen" where
  "CreateGlobalStringPtr str cg = (GlobalString str, cg\<lparr>globalStrings := globalStrings cg @ [str]\<rparr>)"

text \<open>
  \<^verbatim>\<open>llvm::Function::Create(ft, ExternalLinkage, name, module)\<close>: the new function is the
  last of the module; the result is its index. \<^verbatim>\<open>Module::getFunction\<close>: the first
  function of the name.
\<close>

definition Function_Create :: "LType \<Rightarrow> LType list \<Rightarrow> string \<Rightarrow> CodeGen \<Rightarrow> nat \<times> CodeGen" where
  "Function_Create retType argTypes name cg =
     (length (moduleFunctions cg),
      cg\<lparr>moduleFunctions := moduleFunctions cg @
            [\<lparr>fn_name = name, fn_returnType = retType, fn_paramTypes = argTypes, fn_blocks = []\<rparr>]\<rparr>)"

definition getFunction :: "CodeGen \<Rightarrow> string \<Rightarrow> Function option" where
  "getFunction cg name = find (\<lambda>f. fn_name f = name) (moduleFunctions cg)"

text \<open>
  \<^verbatim>\<open>BasicBlock::Create(context, name, func)\<close> creates a block at the end of the function,
  \<^verbatim>\<open>BasicBlock::Create(context, name)\<close> a block in no function, and
  \<^verbatim>\<open>func->insert(func->end(), bb)\<close> puts such a block at the end of the function.
\<close>

definition Function_insert :: "nat \<Rightarrow> nat \<Rightarrow> CodeGen \<Rightarrow> CodeGen" where
  "Function_insert func bb cg =
     cg\<lparr>moduleFunctions := (moduleFunctions cg)[func :=
            (moduleFunctions cg ! func)\<lparr>fn_blocks := fn_blocks (moduleFunctions cg ! func) @ [bb]\<rparr>],
        blocks := (blocks cg)[bb := (blocks cg ! bb)\<lparr>bb_parent := Some func\<rparr>]\<rparr>"

definition BasicBlock_Create :: "string \<Rightarrow> CodeGen \<Rightarrow> nat \<times> CodeGen" where
  "BasicBlock_Create name cg =
     (length (blocks cg),
      cg\<lparr>blocks := blocks cg @ [\<lparr>bb_name = name, bb_parent = None, instructions = []\<rparr>]\<rparr>)"

definition BasicBlock_Create_in :: "string \<Rightarrow> nat \<Rightarrow> CodeGen \<Rightarrow> nat \<times> CodeGen" where
  "BasicBlock_Create_in name func cg =
     (let (bb, cg1) = BasicBlock_Create name cg in (bb, Function_insert func bb cg1))"

text \<open>\<^verbatim>\<open>builder.GetInsertBlock()->getParent()\<close>.\<close>

definition getParent :: "CodeGen \<Rightarrow> CGError + nat" where
  "getParent cg =
     (case bb_parent (blocks cg ! insertBlock cg) of
        None \<Rightarrow> Inl NullDereference
      | Some func \<Rightarrow> Inr func)"

text \<open>
  \<^verbatim>\<open>CodeGen::createEntryBlockAlloca\<close>: a builder of its own, placed at the beginning of
  the entry block of the function, creates the alloca there.
\<close>

definition createEntryBlockAlloca ::
    "nat \<Rightarrow> string \<Rightarrow> LType \<Rightarrow> CodeGen \<Rightarrow> CGError + (AllocaInst \<times> CodeGen)" where
  "createEntryBlockAlloca func varName ty cg =
     (case fn_blocks (moduleFunctions cg ! func) of
        [] \<Rightarrow> Inl NullDereference
      | entry # bbs \<Rightarrow>
          Inr (\<lparr>alloca_reg = nextReg cg, allocatedType = ty\<rparr>,
               cg\<lparr>blocks := (blocks cg)[entry :=
                      (blocks cg ! entry)\<lparr>instructions :=
                         Alloca (nextReg cg) ty varName # instructions (blocks cg ! entry)\<rparr>],
                  nextReg := nextReg cg + 1\<rparr>))"

text \<open>\<^verbatim>\<open>CodeGen::getType\<close>, from a type name to an IR type.\<close>

function getType :: "(string \<rightharpoonup> LType) \<Rightarrow> string \<Rightarrow> LType" where
  "getType sts typeName =
     (if typeName = ''int'' then IntegerTy 64
      else if typeName = ''float'' then DoubleTy
      else if typeName = ''bool'' then IntegerTy 1
      else if typeName = ''string'' then PointerType_get (IntegerTy 8)
      else if typeName = ''void'' then VoidTy
      else if length typeName > 2 \<and> substr typeName (length typeName - 2) 2 = ''[]''
      then PointerType_get (getType sts (substr typeName 0 (length typeName - 2)))
      else (case sts typeName of Some st \<Rightarrow> st | None \<Rightarrow> IntegerTy 64))"
  by pat_completeness auto
termination
  by (relation "measure (\<lambda>(sts, typeName). length typeName)") (auto simp: substr_def)

declare getType.simps [simp del]

text \<open>
  The places that turn a semantic type into an IR type without going through a type
  name. \<open>elementLLVMType\<close> is the chain of \<^verbatim>\<open>visit(IndexExpr&)\<close>,
  \<^verbatim>\<open>visit(ArrayLiteralExpr&)\<close> and the index case of \<^verbatim>\<open>getLValueAddress\<close> (int, float,
  bool, a registered struct; 64-bit integer otherwise); \<open>memberLoadType\<close> is the chain
  of \<^verbatim>\<open>visit(MemberAccessExpr&)\<close>, which also knows strings and starts from a type
  slot that may be null.
\<close>

fun elementLLVMType :: "(string \<rightharpoonup> LType) \<Rightarrow> Type \<Rightarrow> LType" where
  "elementLLVMType sts IntType = IntegerTy 64"
| "elementLLVMType sts FloatType = DoubleTy"
| "elementLLVMType sts BoolType = IntegerTy 1"
| "elementLLVMType sts (StructType n fs) = (case sts n of Some st \<Rightarrow> st | None \<Rightarrow> IntegerTy 64)"
| "elementLLVMType sts t = IntegerTy 64"

fun memberLoadType :: "(string \<rightharpoonup> LType) \<Rightarrow> Type option \<Rightarrow> LType" where
  "memberLoadType sts (Some IntType) = IntegerTy 64"
| "memberLoadType sts (Some FloatType) = DoubleTy"
| "memberLoadType sts (Some BoolType) = IntegerTy 1"
| "memberLoadType sts (Some StringType) = PointerType_get (IntegerTy 8)"
| "memberLoadType sts (Some (StructType n fs)) =
     (case sts n of Some st \<Rightarrow> st | None \<Rightarrow> IntegerTy 64)"
| "memberLoadType sts t = IntegerTy 64"

fun indexLoadType :: "(string \<rightharpoonup> LType) \<Rightarrow> Type option \<Rightarrow> LType" where
  "indexLoadType sts (Some t) = elementLLVMType sts t"
| "indexLoadType sts None = IntegerTy 64"

fun arrayElemType :: "(string \<rightharpoonup> LType) \<Rightarrow> Type option \<Rightarrow> LType" where
  "arrayElemType sts (Some (ArrayType et)) = elementLLVMType sts et"
| "arrayElemType sts t = IntegerTy 64"

text \<open>
  The arithmetic and comparison instructions of \<^verbatim>\<open>visit(BinaryExpr&)\<close>, by operator;
  null for an unknown operator.
\<close>

definition binaryInstruction :: "string \<Rightarrow> Value \<Rightarrow> Value \<Rightarrow> CodeGen \<Rightarrow> CodeGen" where
  "binaryInstruction op l r cg =
     (if op = ''+'' then (let (v, cg') = withResult (\<lambda>n. Add n l r) (Value_getType l) cg
                          in cg'\<lparr>lastValue := Some v\<rparr>)
      else if op = ''-'' then (let (v, cg') = withResult (\<lambda>n. Sub n l r) (Value_getType l) cg
                               in cg'\<lparr>lastValue := Some v\<rparr>)
      else if op = ''*'' then (let (v, cg') = withResult (\<lambda>n. Mul n l r) (Value_getType l) cg
                               in cg'\<lparr>lastValue := Some v\<rparr>)
      else if op = ''/'' then (let (v, cg') = withResult (\<lambda>n. SDiv n l r) (Value_getType l) cg
                               in cg'\<lparr>lastValue := Some v\<rparr>)
      else if op = ''<'' then (let (v, cg') = withResult (\<lambda>n. ICmpSLT n l r) (IntegerTy 1) cg
                               in cg'\<lparr>lastValue := Some v\<rparr>)
      else if op = ''>'' then (let (v, cg') = withResult (\<lambda>n. ICmpSGT n l r) (IntegerTy 1) cg
                               in cg'\<lparr>lastValue := Some v\<rparr>)
      else if op = ''=='' then (let (v, cg') = withResult (\<lambda>n. ICmpEQ n l r) (IntegerTy 1) cg
                                in cg'\<lparr>lastValue := Some v\<rparr>)
      else if op = ''!='' then (let (v, cg') = CreateICmpNE l r cg
                                in cg'\<lparr>lastValue := Some v\<rparr>)
      else cg\<lparr>lastValue := None\<rparr>)"

text \<open>\<^verbatim>\<open>visit(LiteralExpr&)\<close>.\<close>

definition visitLiteral :: "Library \<Rightarrow> CodeGen \<Rightarrow> string \<Rightarrow> bool \<Rightarrow> bool \<Rightarrow> bool \<Rightarrow> CGError + CodeGen" where
  "visitLiteral lib cg v isFloat isBool isString =
     (if isBool then Inr (cg\<lparr>lastValue := Some (ConstantInt 1 (if v = ''true'' then 1 else 0))\<rparr>)
      else if isString then
        (let (g, cg') = CreateGlobalStringPtr v cg in Inr (cg'\<lparr>lastValue := Some g\<rparr>))
      else if isFloat then
        (if stod_throws lib v then Inl UncaughtException
         else Inr (cg\<lparr>lastValue := Some (ConstantFP v)\<rparr>))
      else (case stoll lib v of
              None \<Rightarrow> Inl UncaughtException
            | Some n \<Rightarrow> Inr (cg\<lparr>lastValue := Some (ConstantInt 64 n)\<rparr>)))"

text \<open>
  The end of the member case of \<^verbatim>\<open>getLValueAddress\<close>, once the address of the object is
  known: the struct is looked up by the name in the object's type slot, the field by
  its name in \<^verbatim>\<open>structFieldIndices\<close>, and the address is the GEP with the indices 0 and
  the field index.
\<close>

definition memberAddress :: "CodeGen \<Rightarrow> Value \<Rightarrow> Type option \<Rightarrow> string \<Rightarrow> Value option \<times> CodeGen" where
  "memberAddress cg base objType member =
     (case objType of
        Some (StructType structName fs) \<Rightarrow>
          (case structTypes cg structName of
             None \<Rightarrow> (None, cg)
           | Some st \<Rightarrow>
               (case structFieldIndices cg structName of
                  None \<Rightarrow> (None, cg)
                | Some fieldIndices \<Rightarrow>
                    (case fieldIndices member of
                       None \<Rightarrow> (None, cg)
                     | Some idx \<Rightarrow>
                         (let (gep, cg') = CreateGEP st base [ConstantInt 32 0, ConstantInt 32 idx] cg
                          in (Some gep, cg')))))
      | t \<Rightarrow> (None, cg))"

text \<open>
  The end of the index case of \<^verbatim>\<open>getLValueAddress\<close>, once the array pointer and the
  index are known.
\<close>

definition indexAddress :: "CodeGen \<Rightarrow> Value \<Rightarrow> Value \<Rightarrow> Type option \<Rightarrow> Value option \<times> CodeGen" where
  "indexAddress cg arrayPtr indexVal objType =
     (case objType of
        Some (ArrayType et) \<Rightarrow>
          (let (gep, cg') = CreateGEP (elementLLVMType (structTypes cg) et) arrayPtr [indexVal] cg
           in (Some gep, cg'))
      | t \<Rightarrow> (None, cg))"

text \<open>
  The beginning of \<^verbatim>\<open>visit(ArrayLiteralExpr&)\<close>: \<^verbatim>\<open>malloc\<close> is declared on first use,
  and called with the size of the elements (a 64-bit unsigned product).
\<close>

definition callMalloc :: "Library \<Rightarrow> LType \<Rightarrow> nat \<Rightarrow> CodeGen \<Rightarrow> Value \<times> CodeGen" where
  "callMalloc lib elemType count cg =
     (let (mallocFunc, cg1) =
            (case getFunction cg ''malloc'' of
               Some f \<Rightarrow> (f, cg)
             | None \<Rightarrow>
                 (let (idx, cg') = Function_Create (PointerType_get (IntegerTy 8)) [IntegerTy 64]
                                     ''malloc'' cg
                  in (moduleFunctions cg' ! idx, cg')));
          totalSize = (int (getTypeAllocSize lib elemType) * int count) mod 2 ^ 64
      in CreateCall mallocFunc [ConstantInt 64 totalSize] cg1)"

text \<open>
  The visits of expressions and \<^verbatim>\<open>CodeGen::getLValueAddress\<close>. A visit leaves its
  result in \<^verbatim>\<open>lastValue\<close>. \<open>CodeGen_visitArgs\<close> is the loop of \<^verbatim>\<open>visit(CallExpr&)\<close> over
  the arguments (\<open>None\<close> when an argument has no value and the visit returns early);
  \<open>CodeGen_storeElements\<close> is the loop of \<^verbatim>\<open>visit(ArrayLiteralExpr&)\<close> that stores the
  elements.
\<close>

fun CodeGen_visitExpr :: "Library \<Rightarrow> CodeGen \<Rightarrow> Expr \<Rightarrow> CGError + CodeGen"
  and CodeGen_visitArgs ::
    "Library \<Rightarrow> CodeGen \<Rightarrow> Expr list \<Rightarrow> Value list \<Rightarrow> CGError + (Value list option \<times> CodeGen)"
  and CodeGen_storeElements ::
    "Library \<Rightarrow> CodeGen \<Rightarrow> Expr list \<Rightarrow> int \<Rightarrow> LType \<Rightarrow> Value \<Rightarrow> CGError + CodeGen"
  and getLValueAddress :: "Library \<Rightarrow> CodeGen \<Rightarrow> Expr \<Rightarrow> CGError + (Value option \<times> CodeGen)"
where
  "CodeGen_visitExpr lib cg (LiteralExpr ty v isFloat isBool isString) =
     visitLiteral lib cg v isFloat isBool isString"
| "CodeGen_visitExpr lib cg (VariableExpr ty name) =
     (case namedValues cg name of
        None \<Rightarrow> Inr (cg\<lparr>lastValue := None\<rparr>)
      | Some a \<Rightarrow>
          (let (v, cg') = CreateLoad (allocatedType a) (AllocaInst_value a) name cg
           in Inr (cg'\<lparr>lastValue := Some v\<rparr>)))"
| "CodeGen_visitExpr lib cg (BinaryExpr ty op l r) =
     (if op = ''='' then
        (case getLValueAddress lib cg l of
           Inl err \<Rightarrow> Inl err
         | Inr (None, cg1) \<Rightarrow> Inr (cg1\<lparr>lastValue := None\<rparr>)
         | Inr (Some lvalAddr, cg1) \<Rightarrow>
             (case CodeGen_visitExpr lib cg1 r of
                Inl err \<Rightarrow> Inl err
              | Inr cg2 \<Rightarrow>
                  (case lastValue cg2 of
                     None \<Rightarrow> Inr cg2
                   | Some val \<Rightarrow> Inr ((CreateStore (Some val) lvalAddr cg2)\<lparr>lastValue := Some val\<rparr>))))
      else
        (case CodeGen_visitExpr lib cg l of
           Inl err \<Rightarrow> Inl err
         | Inr cg1 \<Rightarrow>
             (case CodeGen_visitExpr lib cg1 r of
                Inl err \<Rightarrow> Inl err
              | Inr cg2 \<Rightarrow>
                  (case (lastValue cg1, lastValue cg2) of
                     (Some lv, Some rv) \<Rightarrow> Inr (binaryInstruction op lv rv cg2)
                   | other \<Rightarrow> Inr (cg2\<lparr>lastValue := None\<rparr>)))))"
| "CodeGen_visitExpr lib cg (CallExpr ty calleeName args) =
     (case getFunction cg calleeName of
        None \<Rightarrow> Inr (cg\<lparr>lastValue := None\<rparr>)
      | Some callee \<Rightarrow>
          if length (fn_paramTypes callee) \<noteq> length args then Inr (cg\<lparr>lastValue := None\<rparr>)
          else
            (case CodeGen_visitArgs lib cg args [] of
               Inl err \<Rightarrow> Inl err
             | Inr (None, cg1) \<Rightarrow> Inr cg1
             | Inr (Some argsV, cg1) \<Rightarrow>
                 (let (v, cg2) = CreateCall callee argsV cg1 in Inr (cg2\<lparr>lastValue := Some v\<rparr>))))"
| "CodeGen_visitExpr lib cg (MemberAccessExpr ty obj member) =
     (case getLValueAddress lib cg (MemberAccessExpr ty obj member) of
        Inl err \<Rightarrow> Inl err
      | Inr (None, cg1) \<Rightarrow> Inr (cg1\<lparr>lastValue := None\<rparr>)
      | Inr (Some addr, cg1) \<Rightarrow>
          (let (v, cg2) = CreateLoad (memberLoadType (structTypes cg1) ty) addr ''memberload'' cg1
           in Inr (cg2\<lparr>lastValue := Some v\<rparr>)))"
| "CodeGen_visitExpr lib cg (IndexExpr ty obj idx) =
     (case getLValueAddress lib cg (IndexExpr ty obj idx) of
        Inl err \<Rightarrow> Inl err
      | Inr (None, cg1) \<Rightarrow> Inr (cg1\<lparr>lastValue := None\<rparr>)
      | Inr (Some addr, cg1) \<Rightarrow>
          (let (v, cg2) = CreateLoad (indexLoadType (structTypes cg1) ty) addr ''indexload'' cg1
           in Inr (cg2\<lparr>lastValue := Some v\<rparr>)))"
| "CodeGen_visitExpr lib cg (ArrayLiteralExpr ty elements) =
     (let elemType = arrayElemType (structTypes cg) ty;
          (arrayPtr, cg1) = callMalloc lib elemType (length elements) cg
      in case CodeGen_storeElements lib cg1 elements 0 elemType arrayPtr of
           Inl err \<Rightarrow> Inl err
         | Inr cg2 \<Rightarrow> Inr (cg2\<lparr>lastValue := Some arrayPtr\<rparr>))"
| "CodeGen_visitArgs lib cg [] argsV = Inr (Some argsV, cg)"
| "CodeGen_visitArgs lib cg (arg # args) argsV =
     (case CodeGen_visitExpr lib cg arg of
        Inl err \<Rightarrow> Inl err
      | Inr cg1 \<Rightarrow>
          (case lastValue cg1 of
             None \<Rightarrow> Inr (None, cg1)
           | Some v \<Rightarrow> CodeGen_visitArgs lib cg1 args (argsV @ [v])))"
| "CodeGen_storeElements lib cg [] i elemType arrayPtr = Inr cg"
| "CodeGen_storeElements lib cg (e # es) i elemType arrayPtr =
     (case CodeGen_visitExpr lib cg e of
        Inl err \<Rightarrow> Inl err
      | Inr cg1 \<Rightarrow>
          (let val = lastValue cg1;
               (gep, cg2) = CreateGEP elemType arrayPtr [ConstantInt 64 i] cg1;
               cg3 = CreateStore val gep cg2
           in CodeGen_storeElements lib cg3 es (i + 1) elemType arrayPtr))"
| "getLValueAddress lib cg (VariableExpr ty name) =
     (case namedValues cg name of
        None \<Rightarrow> Inr (None, cg)
      | Some a \<Rightarrow> Inr (Some (AllocaInst_value a), cg))"
| "getLValueAddress lib cg (MemberAccessExpr ty obj member) =
     (case getLValueAddress lib cg obj of
        Inl err \<Rightarrow> Inl err
      | Inr (None, cg1) \<Rightarrow> Inr (None, cg1)
      | Inr (Some base, cg1) \<Rightarrow> Inr (memberAddress cg1 base (expr_type obj) member))"
| "getLValueAddress lib cg (IndexExpr ty obj idx) =
     (case getLValueAddress lib cg obj of
        Inl err \<Rightarrow> Inl err
      | Inr (unused, cg0) \<Rightarrow>
          (case CodeGen_visitExpr lib cg0 obj of
             Inl err \<Rightarrow> Inl err
           | Inr cg1 \<Rightarrow>
               (case lastValue cg1 of
                  None \<Rightarrow> Inr (None, cg1)
                | Some arrayPtr \<Rightarrow>
                    (case CodeGen_visitExpr lib cg1 idx of
                       Inl err \<Rightarrow> Inl err
                     | Inr cg2 \<Rightarrow>
                         (case lastValue cg2 of
                            None \<Rightarrow> Inr (None, cg2)
                          | Some indexVal \<Rightarrow>
                              Inr (indexAddress cg2 arrayPtr indexVal (expr_type obj)))))))"
| "getLValueAddress lib cg e = Inr (None, cg)"

text \<open>
  Pieces of the statement visits that do not recurse. \<open>widenCondition\<close>: a condition of
  type \<^verbatim>\<open>i64\<close> is compared with 0 first. \<open>branchIfOpen\<close>: a branch to the block, unless
  the insertion block already ends in a terminator.
\<close>

definition widenCondition :: "Value \<Rightarrow> CodeGen \<Rightarrow> Value \<times> CodeGen" where
  "widenCondition condV cg =
     (if Value_getType condV = IntegerTy 64 then CreateICmpNE condV (ConstantInt 64 0) cg
      else (condV, cg))"

definition branchIfOpen :: "nat \<Rightarrow> CodeGen \<Rightarrow> CodeGen" where
  "branchIfOpen bb cg =
     (if getTerminator cg (insertBlock cg) = None then CreateBr bb cg else cg)"

text \<open>
  \<^verbatim>\<open>visit(VarDeclStmt&)\<close> after the initializer has been lowered: \<open>initVal\<close> is its value,
  null without an initializer.
\<close>

definition declareVariable ::
    "nat \<Rightarrow> string \<Rightarrow> string \<Rightarrow> Value option \<Rightarrow> CodeGen \<Rightarrow> CGError + CodeGen" where
  "declareVariable func name typeName initVal cg =
     (if typeName = [] \<and> initVal = None then Inr cg
      else
        (let varType = (if typeName \<noteq> [] then getType (structTypes cg) typeName
                        else Value_getType (the initVal))
         in case createEntryBlockAlloca func name varType cg of
              Inl err \<Rightarrow> Inl err
            | Inr (alloca, cg1) \<Rightarrow>
                (let cg2 = (case initVal of
                              Some v \<Rightarrow> CreateStore (Some v) (AllocaInst_value alloca) cg1
                            | None \<Rightarrow> CreateStore (Some (NullValue varType))
                                        (AllocaInst_value alloca) cg1)
                 in Inr (cg2\<lparr>namedValues := (namedValues cg2)(name \<mapsto> alloca)\<rparr>))))"

text \<open>
  \<^verbatim>\<open>visit(FunctionStmt&)\<close> in three parts. \<open>createPrototype\<close>: the IR function, from the
  types of the parameters and the return type. \<open>enterFunction\<close>: the entry block, the
  insertion point, the empty \<^verbatim>\<open>namedValues\<close>, and a stack slot for each argument
  (\<open>bindArguments\<close>). \<open>leaveFunction\<close>: the fabricated return when the insertion block
  has no terminator, and the insertion block and \<^verbatim>\<open>namedValues\<close> of before.
\<close>

definition createPrototype ::
    "string \<Rightarrow> (string \<times> string) list \<Rightarrow> string \<Rightarrow> CodeGen \<Rightarrow> nat \<times> CodeGen" where
  "createPrototype name params returnTypeName cg =
     (let argTypes = map (\<lambda>p. getType (structTypes cg) (snd p)) params;
          retType = getType (structTypes cg) returnTypeName
      in Function_Create retType argTypes name cg)"

fun bindArguments ::
    "nat \<Rightarrow> (string \<times> string) list \<Rightarrow> LType list \<Rightarrow> nat \<Rightarrow> CodeGen \<Rightarrow> CGError + CodeGen" where
  "bindArguments func (p # ps) (t # ts) idx cg =
     (case createEntryBlockAlloca func (fst p) t cg of
        Inl err \<Rightarrow> Inl err
      | Inr (alloca, cg1) \<Rightarrow>
          (let cg2 = CreateStore (Some (Argument idx t)) (AllocaInst_value alloca) cg1
           in bindArguments func ps ts (idx + 1)
                (cg2\<lparr>namedValues := (namedValues cg2)(fst p \<mapsto> alloca)\<rparr>)))"
| "bindArguments func ps ts idx cg = Inr cg"

definition enterFunction :: "nat \<Rightarrow> (string \<times> string) list \<Rightarrow> CodeGen \<Rightarrow> CGError + CodeGen" where
  "enterFunction func params cg =
     (let (bb, cg1) = BasicBlock_Create_in ''entry'' func cg;
          cg2 = (SetInsertPoint bb cg1)\<lparr>namedValues := Map.empty\<rparr>
      in bindArguments func params (fn_paramTypes (moduleFunctions cg2 ! func)) 0 cg2)"

definition fabricatedReturn :: "string \<Rightarrow> LType \<Rightarrow> Instr" where
  "fabricatedReturn returnTypeName retTy =
     (if returnTypeName = ''void'' then Ret None
      else if isIntegerTy retTy then Ret (Some (ConstantInt (getIntegerBitWidth retTy) 0))
      else Ret (Some (UndefValue retTy)))"

definition leaveFunction ::
    "nat \<Rightarrow> string \<Rightarrow> nat \<Rightarrow> (string \<rightharpoonup> AllocaInst) \<Rightarrow> CodeGen \<Rightarrow> CodeGen" where
  "leaveFunction func returnTypeName oldBB oldNamedValues cg =
     (let cg1 = (if getTerminator cg (insertBlock cg) = None
                 then emit (fabricatedReturn returnTypeName
                              (fn_returnType (moduleFunctions cg ! func))) cg
                 else cg)
      in (SetInsertPoint oldBB cg1)\<lparr>namedValues := oldNamedValues\<rparr>)"

text \<open>
  \<^verbatim>\<open>visit(StructDeclStmt&)\<close>. \<open>fieldIndicesFrom\<close> is its loop
  \<^verbatim>\<open>fieldIndices[field.first] = idx++\<close> (a later field of the same name overwrites the
  index of an earlier one).
\<close>

fun fieldIndicesFrom :: "int \<Rightarrow> (string \<times> string) list \<Rightarrow> (string \<rightharpoonup> int) \<Rightarrow> (string \<rightharpoonup> int)" where
  "fieldIndicesFrom idx [] fieldIndices = fieldIndices"
| "fieldIndicesFrom idx (field # fs) fieldIndices =
     fieldIndicesFrom (idx + 1) fs (fieldIndices(fst field \<mapsto> idx))"

definition visitStructDecl :: "string \<Rightarrow> (string \<times> string) list \<Rightarrow> CodeGen \<Rightarrow> CodeGen" where
  "visitStructDecl name fs cg =
     (if structTypes cg name \<noteq> None then cg
      else
        (let fieldTypes = map (\<lambda>field. getType (structTypes cg) (snd field)) fs;
             fieldIndices = fieldIndicesFrom 0 fs Map.empty;
             structTy = StructTy name fieldTypes
         in cg\<lparr>structTypes := (structTypes cg)(name \<mapsto> structTy),
               structFieldIndices := (structFieldIndices cg)(name \<mapsto> fieldIndices)\<rparr>))"

text \<open>
  The beginning of \<^verbatim>\<open>visit(IfStmt&)\<close> after the condition: the three blocks and the
  conditional branch. The result is the function, the else block and the merge block.
\<close>

definition beginIf :: "bool \<Rightarrow> Value \<Rightarrow> CodeGen \<Rightarrow> CGError + (nat \<times> nat \<times> nat \<times> CodeGen)" where
  "beginIf hasElse condV0 cg =
     (let (condV, cg1) = widenCondition condV0 cg
      in case getParent cg1 of
           Inl err \<Rightarrow> Inl err
         | Inr func \<Rightarrow>
             (let (thenBB, cg2) = BasicBlock_Create_in ''then'' func cg1;
                  (elseBB, cg3) = BasicBlock_Create ''else'' cg2;
                  (mergeBB, cg4) = BasicBlock_Create ''ifcont'' cg3;
                  cg5 = CreateCondBr condV thenBB (if hasElse then elseBB else mergeBB) cg4
              in Inr (func, elseBB, mergeBB, SetInsertPoint thenBB cg5)))"

text \<open>
  The beginning of \<^verbatim>\<open>visit(WhileStmt&)\<close>, up to the insertion point in the condition
  block; the result is the function and the three blocks.
\<close>

definition beginWhile :: "CodeGen \<Rightarrow> CGError + (nat \<times> nat \<times> nat \<times> nat \<times> CodeGen)" where
  "beginWhile cg =
     (case getParent cg of
        Inl err \<Rightarrow> Inl err
      | Inr func \<Rightarrow>
          (let (condBB, cg1) = BasicBlock_Create_in ''whilecond'' func cg;
               (loopBB, cg2) = BasicBlock_Create ''whilebody'' cg1;
               (afterBB, cg3) = BasicBlock_Create ''afterwhile'' cg2;
               cg4 = CreateBr condBB cg3
           in Inr (func, condBB, loopBB, afterBB, SetInsertPoint condBB cg4)))"

definition enterLoopBody :: "nat \<Rightarrow> nat \<Rightarrow> nat \<Rightarrow> Value \<Rightarrow> CodeGen \<Rightarrow> CodeGen" where
  "enterLoopBody func loopBB afterBB condV0 cg =
     (let (condV, cg1) = widenCondition condV0 cg;
          cg2 = CreateCondBr condV loopBB afterBB cg1
      in SetInsertPoint loopBB (Function_insert func loopBB cg2))"

text \<open>
  The visits of statements, and of a block (\<^verbatim>\<open>visit(Block&)\<close>, also the loop of
  \<^verbatim>\<open>generate\<close> over the module).
\<close>

fun CodeGen_visitStmt :: "Library \<Rightarrow> CodeGen \<Rightarrow> Stmt \<Rightarrow> CGError + CodeGen"
  and CodeGen_visitBlock :: "Library \<Rightarrow> CodeGen \<Rightarrow> Stmt list \<Rightarrow> CGError + CodeGen"
where
  "CodeGen_visitStmt lib cg (ExprStmt e) = CodeGen_visitExpr lib cg e"
| "CodeGen_visitStmt lib cg (ReturnStmt None) = Inr (CreateRet None cg)"
| "CodeGen_visitStmt lib cg (ReturnStmt (Some v)) =
     (case CodeGen_visitExpr lib cg v of
        Inl err \<Rightarrow> Inl err
      | Inr cg1 \<Rightarrow> Inr (CreateRet (lastValue cg1) cg1))"
| "CodeGen_visitStmt lib cg (Block ss) = CodeGen_visitBlock lib cg ss"
| "CodeGen_visitStmt lib cg (IfStmt c thenBranch elseBranch) =
     (case CodeGen_visitExpr lib cg c of
        Inl err \<Rightarrow> Inl err
      | Inr cg0 \<Rightarrow>
          (case lastValue cg0 of
             None \<Rightarrow> Inr cg0
           | Some condV \<Rightarrow>
               (case beginIf (elseBranch \<noteq> None) condV cg0 of
                  Inl err \<Rightarrow> Inl err
                | Inr (func, elseBB, mergeBB, cg1) \<Rightarrow>
                    (case CodeGen_visitBlock lib cg1 thenBranch of
                       Inl err \<Rightarrow> Inl err
                     | Inr cg2 \<Rightarrow>
                         (case (case elseBranch of
                                  None \<Rightarrow> Inr (branchIfOpen mergeBB cg2)
                                | Some elseStmts \<Rightarrow>
                                    (case CodeGen_visitBlock lib
                                            (SetInsertPoint elseBB
                                               (Function_insert func elseBB
                                                  (branchIfOpen mergeBB cg2)))
                                            elseStmts of
                                       Inl err \<Rightarrow> Inl err
                                     | Inr cg3 \<Rightarrow> Inr (branchIfOpen mergeBB cg3))) of
                            Inl err \<Rightarrow> Inl err
                          | Inr cg4 \<Rightarrow>
                              Inr (SetInsertPoint mergeBB (Function_insert func mergeBB cg4)))))))"
| "CodeGen_visitStmt lib cg (WhileStmt c body) =
     (case beginWhile cg of
        Inl err \<Rightarrow> Inl err
      | Inr (func, condBB, loopBB, afterBB, cg1) \<Rightarrow>
          (case CodeGen_visitExpr lib cg1 c of
             Inl err \<Rightarrow> Inl err
           | Inr cg2 \<Rightarrow>
               (case lastValue cg2 of
                  None \<Rightarrow> Inr cg2
                | Some condV \<Rightarrow>
                    (case CodeGen_visitBlock lib (enterLoopBody func loopBB afterBB condV cg2) body of
                       Inl err \<Rightarrow> Inl err
                     | Inr cg3 \<Rightarrow>
                         Inr (SetInsertPoint afterBB
                                (Function_insert func afterBB (branchIfOpen condBB cg3)))))))"
| "CodeGen_visitStmt lib cg (VarDeclStmt name typeName initializer) =
     (case getParent cg of
        Inl err \<Rightarrow> Inl err
      | Inr func \<Rightarrow>
          (case initializer of
             None \<Rightarrow> declareVariable func name typeName None cg
           | Some init \<Rightarrow>
               (case CodeGen_visitExpr lib cg init of
                  Inl err \<Rightarrow> Inl err
                | Inr cg1 \<Rightarrow> declareVariable func name typeName (lastValue cg1) cg1)))"
| "CodeGen_visitStmt lib cg (FunctionStmt name params returnTypeName None) =
     Inr (snd (createPrototype name params returnTypeName cg))"
| "CodeGen_visitStmt lib cg (FunctionStmt name params returnTypeName (Some body)) =
     (let (func, cg1) = createPrototype name params returnTypeName cg;
          oldBB = insertBlock cg1;
          oldNamedValues = namedValues cg1
      in case enterFunction func params cg1 of
           Inl err \<Rightarrow> Inl err
         | Inr cg2 \<Rightarrow>
             (case CodeGen_visitBlock lib cg2 body of
                Inl err \<Rightarrow> Inl err
              | Inr cg3 \<Rightarrow> Inr (leaveFunction func returnTypeName oldBB oldNamedValues cg3)))"
| "CodeGen_visitStmt lib cg (StructDeclStmt name fs) = Inr (visitStructDecl name fs cg)"
| "CodeGen_visitBlock lib cg [] = Inr cg"
| "CodeGen_visitBlock lib cg (s # ss) =
     (case CodeGen_visitStmt lib cg s of
        Inl err \<Rightarrow> Inl err
      | Inr cg1 \<Rightarrow> CodeGen_visitBlock lib cg1 ss)"

text \<open>
  \<^verbatim>\<open>CodeGen::generate\<close>. \<open>hasUserMain\<close> is its first loop, over the statements of the
  module itself.
\<close>

fun isFunctionNamed :: "string \<Rightarrow> Stmt \<Rightarrow> bool" where
  "isFunctionNamed n (FunctionStmt name params returnTypeName body) = (name = n)"
| "isFunctionNamed n s = False"

definition hasUserMain :: "Stmt list \<Rightarrow> bool" where
  "hasUserMain stmts = list_ex (isFunctionNamed ''main'') stmts"

definition generate :: "Library \<Rightarrow> CodeGen \<Rightarrow> Stmt list \<Rightarrow> CGError + CodeGen" where
  "generate lib cg stmts =
     (let entryName = (if hasUserMain stmts then ''__init'' else ''main'');
          (entryFunc, cg1) = Function_Create (IntegerTy 64) [] entryName cg;
          (bb, cg2) = BasicBlock_Create_in ''entry'' entryFunc cg1;
          cg3 = SetInsertPoint bb cg2
      in case CodeGen_visitBlock lib cg3 stmts of
           Inl err \<Rightarrow> Inl err
         | Inr cg4 \<Rightarrow>
             Inr (if getTerminator cg4 (insertBlock cg4) = None
                  then CreateRet (Some (ConstantInt 64 0)) cg4
                  else cg4))"

text \<open>
  What the proofs below follow through a run of the code generator. The signature of a
  function is its name with its return and parameter types. \<open>exprStep\<close>: the step of an
  expression visit, which keeps the insertion block and the number of blocks and only
  appends to the module's functions. \<open>grows\<close>: blocks and functions are only added.
  \<open>validInsert\<close>: the insertion block exists. \<open>stmtStep\<close>: the step of a statement visit.
\<close>

definition signature :: "Function \<Rightarrow> string \<times> LType \<times> LType list" where
  "signature f = (fn_name f, fn_returnType f, fn_paramTypes f)"

definition signatures :: "CodeGen \<Rightarrow> (string \<times> LType \<times> LType list) list" where
  "signatures cg = map signature (moduleFunctions cg)"

definition exprStep :: "CodeGen \<Rightarrow> CodeGen \<Rightarrow> bool" where
  "exprStep cg cg' =
     (insertBlock cg' = insertBlock cg \<and> length (blocks cg') = length (blocks cg)
      \<and> prefix (signatures cg) (signatures cg'))"

definition grows :: "CodeGen \<Rightarrow> CodeGen \<Rightarrow> bool" where
  "grows cg cg' =
     (length (blocks cg) \<le> length (blocks cg') \<and> prefix (signatures cg) (signatures cg'))"

definition validInsert :: "CodeGen \<Rightarrow> bool" where
  "validInsert cg = (insertBlock cg < length (blocks cg))"

definition stmtStep :: "CodeGen \<Rightarrow> CodeGen \<Rightarrow> bool" where
  "stmtStep cg cg' = (grows cg cg' \<and> (validInsert cg \<longrightarrow> validInsert cg'))"

text \<open>
  What the proofs about struct declarations follow. \<open>declaresStruct n s\<close>: the statement
  \<open>s\<close> is, or holds at any depth, a declaration of the struct name \<open>n\<close> (the parser
  produces struct declarations at the top level of a module only; the syntax tree also
  allows them in blocks). \<open>generateStart\<close>: the state in which \<^verbatim>\<open>generate\<close> begins its loop
  over the statements, after it has created the implicit entry function and its entry
  block. \<open>sameStructs\<close>: two states of the code generator have the same \<^verbatim>\<open>structTypes\<close>
  and \<^verbatim>\<open>structFieldIndices\<close>; \<open>keepsStruct n\<close>: they have the same entries for the
  name \<open>n\<close>.
\<close>

fun declaresStruct :: "string \<Rightarrow> Stmt \<Rightarrow> bool" where
  "declaresStruct n (StructDeclStmt name fs) = (name = n)"
| "declaresStruct n (Block ss) = list_ex (declaresStruct n) ss"
| "declaresStruct n (IfStmt c thenBranch None) = list_ex (declaresStruct n) thenBranch"
| "declaresStruct n (IfStmt c thenBranch (Some elseBranch)) =
     (list_ex (declaresStruct n) thenBranch \<or> list_ex (declaresStruct n) elseBranch)"
| "declaresStruct n (WhileStmt c body) = list_ex (declaresStruct n) body"
| "declaresStruct n (FunctionStmt name params returnTypeName (Some body)) =
     list_ex (declaresStruct n) body"
| "declaresStruct n s = False"

definition generateStart :: "Stmt list \<Rightarrow> CodeGen \<Rightarrow> CodeGen" where
  "generateStart stmts cg =
     (let entryName = (if hasUserMain stmts then ''__init'' else ''main'');
          (entryFunc, cg1) = Function_Create (IntegerTy 64) [] entryName cg;
          (bb, cg2) = BasicBlock_Create_in ''entry'' entryFunc cg1
      in SetInsertPoint bb cg2)"

definition sameStructs :: "CodeGen \<Rightarrow> CodeGen \<Rightarrow> bool" where
  "sameStructs cg cg' =
     (structTypes cg' = structTypes cg \<and> structFieldIndices cg' = structFieldIndices cg)"

definition keepsStruct :: "string \<Rightarrow> CodeGen \<Rightarrow> CodeGen \<Rightarrow> bool" where
  "keepsStruct n cg cg' =
     (structTypes cg' n = structTypes cg n \<and> structFieldIndices cg' n = structFieldIndices cg n)"

text \<open>
  The two lookups of a field index. \<open>semaMemberIndex\<close>: \<^verbatim>\<open>getMemberIndex\<close> on the
  \<^verbatim>\<open>StructType\<close> that the type checker has registered under the struct's name.
  \<open>codegenFieldIndex\<close>: \<^verbatim>\<open>structFieldIndices[structName][member]\<close>, as
  \<^verbatim>\<open>getLValueAddress\<close> reads it.
\<close>

definition semaMemberIndex :: "TypeChecker \<Rightarrow> string \<Rightarrow> string \<Rightarrow> int option" where
  "semaMemberIndex tc structName member =
     (case structDefs tc structName of
        Some (StructType n fs) \<Rightarrow> Some (getMemberIndex fs member)
      | other \<Rightarrow> None)"

definition codegenFieldIndex :: "CodeGen \<Rightarrow> string \<Rightarrow> string \<Rightarrow> int option" where
  "codegenFieldIndex cg structName member =
     (case structFieldIndices cg structName of
        Some fieldIndices \<Rightarrow> fieldIndices member
      | None \<Rightarrow> None)"

text \<open>
  An instance of the library parameter, for the evaluations at concrete inputs: the
  three functions as they behave with libstdc++ on glibc (in the C locale, with
  round-to-nearest) and with the default data layout of LLVM, which the module has since
  the code generator sets none.

  \<^verbatim>\<open>std::stoll\<close> reads an optionally signed decimal number after white space; it throws
  when there is no digit and when the number is outside the range of 64 bits.
\<close>

fun digitsValue :: "int \<Rightarrow> string \<Rightarrow> int" where
  "digitsValue acc [] = acc"
| "digitsValue acc (c # cs) = digitsValue (acc * 10 + (of_char c - 48)) cs"

definition stoll_decimal :: "string \<Rightarrow> int option" where
  "stoll_decimal s =
     (let s1 = dropWhile isspace s;
          negative = (s1 \<noteq> [] \<and> hd s1 = CHR ''-'');
          s2 = (if s1 \<noteq> [] \<and> (hd s1 = CHR ''-'' \<or> hd s1 = CHR ''+'') then tl s1 else s1);
          ds = takeWhile isdigit s2;
          v = (if negative then - digitsValue 0 ds else digitsValue 0 ds)
      in if ds = [] \<or> v < - (2 ^ 63) \<or> 2 ^ 63 \<le> v then None else Some v)"

text \<open>
  \<^verbatim>\<open>std::stod\<close> calls \<^verbatim>\<open>strtod\<close> and throws \<^verbatim>\<open>invalid_argument\<close> when nothing was
  converted and \<^verbatim>\<open>out_of_range\<close> when \<^verbatim>\<open>strtod\<close> has set \<^verbatim>\<open>ERANGE\<close>. \<^verbatim>\<open>strtod\<close> skips white
  space and an optional sign, and then converts the longest prefix that is a decimal
  number (digits with an optional point, at least one digit, and an optional exponent
  \<^verbatim>\<open>e\<close> with an optionally signed nonempty run of digits), a hexadecimal number (\<^verbatim>\<open>0x\<close>,
  hexadecimal digits with an optional point, an optional binary exponent \<^verbatim>\<open>p\<close>; \<^verbatim>\<open>0x\<close>
  without such digits converts the \<^verbatim>\<open>0\<close>), or \<^verbatim>\<open>inf\<close> or \<^verbatim>\<open>nan\<close> in any case of letters.

  \<open>outOfDoubleRange m b e\<close>: the number \<open>m * b ^ e\<close> is not 0 and either rounds to
  infinity (it is at least \<open>2 ^ 1024 - 2 ^ 970\<close>, half a unit in the last place above the
  largest \<^verbatim>\<open>double\<close>) or is tiny and inexact: below the smallest normal \<^verbatim>\<open>double\<close> also
  after rounding to 53 bits (it is less than \<open>2 ^ -1022 - 2 ^ -1076\<close>) and no multiple of
  the smallest subnormal \<open>2 ^ -1074\<close>. These are the cases in which \<^verbatim>\<open>strtod\<close> sets
  \<^verbatim>\<open>ERANGE\<close>.
\<close>

definition isxdigit :: "char \<Rightarrow> bool" where
  "isxdigit c =
     (let n = (of_char c :: nat) in isdigit c \<or> (65 \<le> n \<and> n \<le> 70) \<or> (97 \<le> n \<and> n \<le> 102))"

definition hexDigit :: "char \<Rightarrow> int" where
  "hexDigit c =
     (let n = (of_char c :: int) in if n \<le> 57 then n - 48 else if n \<le> 70 then n - 55 else n - 87)"

fun hexValue :: "int \<Rightarrow> string \<Rightarrow> int" where
  "hexValue acc [] = acc"
| "hexValue acc (c # cs) = hexValue (acc * 16 + hexDigit c) cs"

fun prefixNoCase :: "string \<Rightarrow> string \<Rightarrow> bool" where
  "prefixNoCase [] s = True"
| "prefixNoCase (p # ps) [] = False"
| "prefixNoCase (p # ps) (c # cs) =
     ((c = p \<or> (of_char c :: nat) + 32 = of_char p) \<and> prefixNoCase ps cs)"

definition exponentPart :: "char \<Rightarrow> string \<Rightarrow> int" where
  "exponentPart marker s =
     (case s of
        [] \<Rightarrow> 0
      | c # cs \<Rightarrow>
          if c = marker \<or> (of_char c :: nat) + 32 = of_char marker then
            (let negative = (cs \<noteq> [] \<and> hd cs = CHR ''-'');
                 ds = takeWhile isdigit
                        (if cs \<noteq> [] \<and> (hd cs = CHR ''-'' \<or> hd cs = CHR ''+'') then tl cs else cs)
             in if negative then - digitsValue 0 ds else digitsValue 0 ds)
          else 0)"

definition outOfDoubleRange :: "int \<Rightarrow> int \<Rightarrow> int \<Rightarrow> bool" where
  "outOfDoubleRange m b e =
     (0 < m \<and>
      (let num = (if 0 \<le> e then m * b ^ nat e else m);
           den = (if 0 \<le> e then 1 else b ^ nat (- e))
       in (2 ^ 1024 - 2 ^ 970) * den \<le> num
          \<or> (num * 2 ^ 1076 < (2 ^ 54 - 1) * den \<and> \<not> den dvd num * 2 ^ 1074)))"

definition stod_fails :: "string \<Rightarrow> bool" where
  "stod_fails s =
     (let s1 = dropWhile isspace s;
          s2 = (if s1 \<noteq> [] \<and> (hd s1 = CHR ''-'' \<or> hd s1 = CHR ''+'') then tl s1 else s1)
      in if s2 \<noteq> [] \<and> (isdigit (hd s2)
                        \<or> (hd s2 = CHR ''.'' \<and> tl s2 \<noteq> [] \<and> isdigit (hd (tl s2)))) then
           (if hd s2 = CHR ''0'' \<and> tl s2 \<noteq> [] \<and> (hd (tl s2) = CHR ''x'' \<or> hd (tl s2) = CHR ''X'') then
              (let h = tl (tl s2);
                   ip = takeWhile isxdigit h;
                   r1 = dropWhile isxdigit h;
                   hasPoint = (r1 \<noteq> [] \<and> hd r1 = CHR ''.'');
                   fp = (if hasPoint then takeWhile isxdigit (tl r1) else []);
                   r2 = (if hasPoint then dropWhile isxdigit (tl r1) else r1)
               in ip @ fp \<noteq> []
                  \<and> outOfDoubleRange (hexValue 0 (ip @ fp)) 2
                       (exponentPart CHR ''p'' r2 - 4 * int (length fp)))
            else
              (let ip = takeWhile isdigit s2;
                   r1 = dropWhile isdigit s2;
                   hasPoint = (r1 \<noteq> [] \<and> hd r1 = CHR ''.'');
                   fp = (if hasPoint then takeWhile isdigit (tl r1) else []);
                   r2 = (if hasPoint then dropWhile isdigit (tl r1) else r1)
               in outOfDoubleRange (digitsValue 0 (ip @ fp)) 10
                    (exponentPart CHR ''e'' r2 - int (length fp))))
         else \<not> (prefixNoCase ''inf'' s2 \<or> prefixNoCase ''nan'' s2))"

text \<open>
  \<^verbatim>\<open>DataLayout::getTypeAllocSize\<close> with the default data layout: the size of a type
  rounded up to its ABI alignment. An integer is aligned to 1 byte up to 8 bits, to 2
  bytes up to 16 bits and to 4 bytes otherwise (the default layout has \<^verbatim>\<open>i64:32:64\<close>);
  a \<^verbatim>\<open>double\<close> and a pointer take 8 bytes, aligned to 8; in a struct each field starts
  at the next multiple of its alignment, and the struct is aligned as its most aligned
  field. The library does not size \<^verbatim>\<open>void\<close>; the model gives it the size 0.
\<close>

definition alignTo :: "nat \<Rightarrow> nat \<Rightarrow> nat" where
  "alignTo n a = ((n + a - 1) div a) * a"

fun defaultABIAlign :: "LType \<Rightarrow> nat" where
  "defaultABIAlign (IntegerTy w) = (if w \<le> 8 then 1 else if w \<le> 16 then 2 else 4)"
| "defaultABIAlign (StructTy n ts) = fold max (map defaultABIAlign ts) 1"
| "defaultABIAlign VoidTy = 1"
| "defaultABIAlign t = 8"

fun defaultAllocSize :: "LType \<Rightarrow> nat" where
  "defaultAllocSize (IntegerTy w) = alignTo ((w + 7) div 8) (defaultABIAlign (IntegerTy w))"
| "defaultAllocSize (StructTy n ts) =
     alignTo (fold (\<lambda>t offset. alignTo offset (defaultABIAlign t) + defaultAllocSize t) ts 0)
             (defaultABIAlign (StructTy n ts))"
| "defaultAllocSize VoidTy = 0"
| "defaultAllocSize t = 8"

definition exampleLibrary :: Library where
  "exampleLibrary =
     \<lparr>stoll = stoll_decimal, stod_throws = stod_fails, getTypeAllocSize = defaultAllocSize\<rparr>"

section \<open>Properties of the lexer\<close>

lemma bracket_falls_through:
  assumes "peek (skipWhitespace L0) = c" and "c = CHR ''['' \<or> c = CHR '']''"
  shows "kind (fst (nextToken L0)) = TK_Error"
proof -
  have "\<not> isalpha c" "\<not> isdigit c" "c \<noteq> CHR 0x00" "c \<noteq> CHR 0x22" "c \<noteq> CHR ''_''"
    using assms(2) by (auto simp: isalpha_def isdigit_def)
  moreover have "peek ((skipWhitespace L0)\<lparr>startPosition := position (skipWhitespace L0)\<rparr>) = c"
    using assms(1) by simp
  ultimately show ?thesis
    using assms(2) by (auto simp: nextToken_def switchToken_def Let_def atom_def)
qed

lemma identifierTok_kind:
  "kind (fst (identifierTok L)) \<in> {TK_Def, TK_End, TK_If, TK_Else, TK_Return, TK_Var, TK_Struct,
      TK_Extern, TK_While, TK_True, TK_False, TK_Identifier}"
  by (simp add: identifierTok_def Let_def)

lemma number_kind: "kind (fst (number L)) \<in> {TK_Float, TK_Integer}"
  by (simp add: number_def Let_def split: prod.splits)

lemma stringTok_kind [simp]: "kind (fst (stringTok L)) = TK_String"
  by (simp add: stringTok_def Let_def)

lemma switchToken_Equal:
  "kind (fst (switchToken c L')) = TK_Equal \<Longrightarrow>
     c = CHR ''='' \<and> switchToken c L' = (atom L' TK_Equal, L')"
  by (simp add: switchToken_def Let_def split: if_splits)

lemma nextToken_Equal:
  assumes "kind (fst (nextToken L0)) = TK_Equal"
  defines "S \<equiv> (skipWhitespace L0)\<lparr>startPosition := position (skipWhitespace L0)\<rparr>"
  shows "peek S = CHR ''=''" and "nextToken L0 = (atom (advance S) TK_Equal, advance S)"
proof -
  have sw: "nextToken L0 = switchToken (peek S) (advance S)"
    using identifierTok_kind [of "advance S"] number_kind [of S] assms(1)
    unfolding nextToken_def S_def [symmetric] Let_def
    by (auto split: if_splits)
  with assms(1) switchToken_Equal [of "peek S" "advance S"]
  show "peek S = CHR ''=''" and "nextToken L0 = (atom (advance S) TK_Equal, advance S)"
    by auto
qed

lemma Equal_token_text:
  assumes "kind (fst (nextToken L0)) = TK_Equal"
  shows "tok_text (fst (nextToken L0)) = ''=''"
proof -
  define S where "S = (skipWhitespace L0)\<lparr>startPosition := position (skipWhitespace L0)\<rparr>"
  have sp: "startPosition S = position S" by (simp add: S_def)
  from nextToken_Equal [OF assms]
  have eq: "peek S = CHR ''=''" and nt: "nextToken L0 = (atom (advance S) TK_Equal, advance S)"
    by (simp_all add: S_def)
  then have inside: "position S < length (source S)"
    by (auto simp: peek_def split: if_splits)
  then have c: "source S ! position S = CHR ''=''" using eq by (simp add: peek_def)
  have adv: "position (advance S) = position S + 1" "startPosition (advance S) = position S"
     "source (advance S) = source S"
    using inside sp by (simp_all add: advance_position)
  have "drop (position S) (source S) = CHR ''='' # drop (Suc (position S)) (source S)"
    using inside c by (simp add: Cons_nth_drop_Suc [symmetric])
  then show ?thesis using adv nt
    by (simp add: atom_def substr_def Let_def)
qed


text \<open>
  C1 (the code does not do what the claim says). The claim: when the next significant
  character is \<^verbatim>\<open>[\<close> (or \<^verbatim>\<open>]\<close>), \<^verbatim>\<open>nextToken\<close> returns a token of kind LBracket (or
  RBracket), not an error token. The \<^verbatim>\<open>switch\<close> of \<^verbatim>\<open>nextToken\<close> has no case for either
  character, although Token.h declares both kinds and the parser matches them for array
  literals, indexing and array type names: on the sources \<^verbatim>\<open>[\<close> and \<^verbatim>\<open>]\<close>, also after
  white space and a comment, the token is an Error token whose text is the bracket.
\<close>

theorem nextToken_bracket_is_Error:
  "fst (nextToken (Lexer_new ''['')) =
     \<lparr>kind = TK_Error, tok_text = ''['', tok_line = 1, tok_column = 1\<rparr>
   \<and> fst (nextToken (Lexer_new '']'')) =
     \<lparr>kind = TK_Error, tok_text = '']'', tok_line = 1, tok_column = 1\<rparr>
   \<and> kind (fst (nextToken (Lexer_new '' # c
[1]''))) = TK_Error"
  by code_simp


subsection \<open>Token texts and the source\<close>

text \<open>
  Each token other than a string literal and end-of-file has as its text exactly the characters
  that \<^verbatim>\<open>nextToken\<close> consumed for it, none of them white space or \<^verbatim>\<open>#\<close>.
\<close>

lemma plain_digit: "isdigit c \<Longrightarrow> plain c"
  by (auto simp: plain_def isdigit_def isspace_def)

lemma plain_identifier: "inIdentifier c \<Longrightarrow> plain c"
  by (auto simp: plain_def inIdentifier_def isalnum_def isalpha_def isdigit_def isspace_def)

lemma plain_alpha: "isalpha c \<or> c = CHR ''_'' \<Longrightarrow> plain c"
  by (auto simp: plain_def isalpha_def isspace_def)

lemma strip_plain: "\<forall>c \<in> set xs. plain c \<Longrightarrow> strip (xs @ ys) = xs @ strip ys"
  by (induction xs) (auto simp: plain_def)

lemma token_span:
  assumes a: "advanced S L'" and sp: "startPosition S = position S"
  shows "tok_text (atom L' k) = take (position L' - position S) (remaining S)"
    and "remaining L' = drop (position L' - position S) (remaining S)"
  using a sp by (simp_all add: advanced_def atom_text remaining_def)

lemma nextToken_plain:
  assumes r: "remaining (skipWhitespace L0) = c # cs"
    and c: "c \<noteq> CHR 0x00" "c \<noteq> CHR 0x22"
  defines "S \<equiv> (skipWhitespace L0)\<lparr>startPosition := position (skipWhitespace L0)\<rparr>"
  defines "n \<equiv> position (snd (nextToken L0)) - position S"
  shows "kind (fst (nextToken L0)) \<noteq> TK_EndOfFile"
    and "tok_text (fst (nextToken L0)) = take n (c # cs)"
    and "remaining (snd (nextToken L0)) = drop n (c # cs)"
    and "\<forall>x \<in> set (take n (c # cs)). plain x"
proof -
  have rS: "remaining S = c # cs" using r by (simp add: S_def remaining_def)
  have sp: "startPosition S = position S" by (simp add: S_def)
  have pk: "peek S = c" using rS by (simp add: peek_remaining)
  have inside: "position S < length (source S)" using pk c(1) by (auto intro: peek_inside)
  have le: "position S \<le> length (source S)" using inside by simp
  have pc: "plain c"
    using skipWhitespace_peek [of L0] pk by (simp add: plain_def S_def)
  have adv: "position (advance S) = position S + 1" "remaining (advance S) = cs"
    using advance_inside [OF rS] by simp_all
  have aS: "advanced S (advance S)" using le by (rule advanced_advance)
  note nt = nextToken_def [of L0, unfolded Let_def, folded S_def, unfolded pk]
  consider (ident) "isalpha c \<or> c = CHR ''_''"
    | (num) "\<not> (isalpha c \<or> c = CHR ''_'')" "isdigit c"
    | (sw) "\<not> (isalpha c \<or> c = CHR ''_'')" "\<not> isdigit c" by blast
  then have "kind (fst (nextToken L0)) \<noteq> TK_EndOfFile
      \<and> tok_text (fst (nextToken L0)) = take n (c # cs)
      \<and> remaining (snd (nextToken L0)) = drop n (c # cs)
      \<and> (\<forall>x \<in> set (take n (c # cs)). plain x)"
  proof cases
    case ident
    let ?L' = "advanceWhile inIdentifier (advance S)"
    from ident c have eq: "nextToken L0 = identifierTok (advance S)" by (simp add: nt)
    have a: "advanced S ?L'"
      using aS advanced_advanceWhile [OF advanced_le [OF aS]] by (rule advanced_trans)
    have p: "position ?L' = position S + 1 + length (takeWhile inIdentifier cs)"
      using advanced_le [OF aS] adv by (simp add: position_advanceWhile)
    have n: "n = 1 + length (takeWhile inIdentifier cs)"
      using p by (simp add: n_def eq identifierTok_snd)
    have t: "take n (c # cs) = c # takeWhile inIdentifier cs"
      by (simp add: n take_length_takeWhile)
    have "\<forall>x \<in> set (c # takeWhile inIdentifier cs). plain x"
      using pc by (auto dest: set_takeWhileD intro: plain_identifier)
    moreover have "tok_text (fst (nextToken L0)) = take n (c # cs)"
      using identifierTok_text [of "advance S" TK_Identifier] token_span(1) [OF a sp] rS p n
      by (simp add: eq identifierTok_snd)
    moreover have "remaining (snd (nextToken L0)) = drop n (c # cs)"
      using token_span(2) [OF a sp] rS p n by (simp add: eq identifierTok_snd)
    ultimately show ?thesis
      using t identifierTok_not_EOF [of "advance S"] by (simp add: eq)
  next
    case num
    from num c have eq: "nextToken L0 = number S" by (simp add: nt)
    note nr = number_result [OF sp le]
    let ?tx = "tok_text (fst (number S))"
    have a: "advanced S (snd (number S))"
      using nr(3,4,5,6) sp by (simp add: advanced_def)
    have n: "n = length ?tx" using nr(5) by (simp add: n_def eq)
    have tx: "?tx = take n (c # cs)"
      using number_text [of S TK_Integer] token_span(1) [OF a sp] rS by (simp add: n_def eq)
    have "\<forall>x \<in> set ?tx. plain x"
      unfolding nr(2)
      by (auto dest!: set_takeWhileD simp: plain_def isspace_def isdigit_def)
    with tx have "\<forall>x \<in> set (take n (c # cs)). plain x" by simp
    moreover have "remaining (snd (number S)) = drop n (c # cs)"
      using token_span(2) [OF a sp] rS by (simp add: n_def eq)
    ultimately show ?thesis using tx number_not_EOF [of S] by (simp add: eq)
  next
    case sw
    from sw c have eq: "nextToken L0 = switchToken c (advance S)" by (simp add: nt)
    let ?L' = "snd (switchToken c (advance S))"
    have le1: "position (advance S) \<le> length (source (advance S))" using advanced_le [OF aS] .
    have a: "advanced S ?L'"
      using aS advanced_advance [OF le1] by (auto simp: switchToken_snd intro: advanced_trans)
    have sel: "(?L' = advance S \<and> n = 1) \<or>
        (?L' = advance (advance S) \<and> n = 2 \<and> (\<exists>d ds. cs = d # ds \<and> (d = CHR ''>'' \<or> d = CHR ''='')))"
    proof (cases "?L' = advance S")
      case True
      then show ?thesis using adv by (simp add: n_def eq)
    next
      case False
      then have two: "?L' = advance (advance S)"
        and d: "peek (advance S) = CHR ''>'' \<or> peek (advance S) = CHR ''=''"
        by (auto simp: switchToken_snd split: if_splits)
      from d obtain d' ds where cs: "cs = d' # ds" "d' = CHR ''>'' \<or> d' = CHR ''=''"
        using adv(2) by (cases cs) (auto simp: peek_remaining)
      with advance_inside [of "advance S" d' ds] adv
      have "position (advance (advance S)) = position S + 2" by simp
      then show ?thesis using two cs by (simp add: n_def eq)
    qed
    have pl: "\<forall>x \<in> set (take n (c # cs)). plain x"
      using sel pc by (auto simp: plain_def isspace_def)
    have "tok_text (fst (nextToken L0)) = take n (c # cs)"
      using switchToken_text [of c "advance S" TK_Error] token_span(1) [OF a sp] rS
      by (simp add: n_def eq)
    moreover have "remaining (snd (nextToken L0)) = drop n (c # cs)"
      using token_span(2) [OF a sp] rS by (simp add: n_def eq)
    ultimately show ?thesis
      using pl switchToken_not_EOF [of c "advance S"] by (simp add: eq)
  qed
  then show "kind (fst (nextToken L0)) \<noteq> TK_EndOfFile"
    and "tok_text (fst (nextToken L0)) = take n (c # cs)"
    and "remaining (snd (nextToken L0)) = drop n (c # cs)"
    and "\<forall>x \<in> set (take n (c # cs)). plain x"
    by blast+
qed


lemma remaining_startPosition_update [simp]: "remaining (L\<lparr>startPosition := n\<rparr>) = remaining L"
  by (simp add: remaining_def)

lemma lexAll_EOF: "kind (fst (nextToken L)) = TK_EndOfFile \<Longrightarrow> lexAll L = [fst (nextToken L)]"
  by (subst lexAll.simps) (auto simp: Let_def split: prod.splits)

lemma lexAll_token:
  "kind (fst (nextToken L)) \<noteq> TK_EndOfFile \<Longrightarrow>
     lexAll L = fst (nextToken L) # lexAll (snd (nextToken L))"
  by (subst lexAll.simps) (auto simp: Let_def split: prod.splits)

lemma nextToken_at_end:
  assumes "remaining (skipWhitespace L0) = []"
  shows "kind (fst (nextToken L0)) = TK_EndOfFile" and "tok_text (fst (nextToken L0)) = []"
proof -
  let ?S = "(skipWhitespace L0)\<lparr>startPosition := position (skipWhitespace L0)\<rparr>"
  have "peek ?S = CHR 0x00" using assms by (simp add: peek_remaining)
  then have "nextToken L0 = (atom ?S TK_EndOfFile, ?S)" by (simp add: nextToken_def Let_def)
  then show "kind (fst (nextToken L0)) = TK_EndOfFile" "tok_text (fst (nextToken L0)) = []"
    by (simp_all add: atom_text)
qed

lemma lexAll_strip:
  "CHR 0x00 \<notin> set (remaining L) \<Longrightarrow> CHR 0x22 \<notin> set (remaining L) \<Longrightarrow>
     concat (map tok_text (lexAll L)) = strip (remaining L)"
proof (induction L rule: lexAll.induct)
  case (1 L)
  obtain k where k: "remaining (skipWhitespace L) = drop k (remaining L)"
    using skipWhitespace_remaining by blast
  have st: "strip (remaining L) = strip (remaining (skipWhitespace L))"
    using skipWhitespace_strip [OF "1.prems"(1)] by simp
  show ?case
  proof (cases "remaining (skipWhitespace L)")
    case Nil
    from nextToken_at_end [OF Nil] show ?thesis
      by (simp add: lexAll_EOF st Nil)
  next
    case (Cons c cs)
    have "c \<in> set (remaining L)"
      using Cons k by (metis in_set_dropD list.set_intros(1))
    with "1.prems" have c: "c \<noteq> CHR 0x00" "c \<noteq> CHR 0x22" by auto
    let ?n = "position (snd (nextToken L)) -
                position ((skipWhitespace L)\<lparr>startPosition := position (skipWhitespace L)\<rparr>)"
    note np = nextToken_plain [OF Cons c]
    have sub: "set (remaining (snd (nextToken L))) \<subseteq> set (remaining L)"
    proof -
      have "set (drop ?n (c # cs)) \<subseteq> set (c # cs)" by (rule set_drop_subset)
      also have "\<dots> \<subseteq> set (remaining L)" using Cons k by (metis set_drop_subset)
      finally show ?thesis using np(3) by simp
    qed
    have ih: "concat (map tok_text (lexAll (snd (nextToken L)))) = strip (remaining (snd (nextToken L)))"
      using "1.IH" [of "nextToken L" "fst (nextToken L)" "snd (nextToken L)"] np(1) sub "1.prems"
      by auto
    have "strip (remaining L) = strip (take ?n (c # cs) @ drop ?n (c # cs))"
      using st Cons by simp
    also have "\<dots> = take ?n (c # cs) @ strip (drop ?n (c # cs))"
      using np(4) by (rule strip_plain)
    also have "\<dots> = tok_text (fst (nextToken L)) @ strip (remaining (snd (nextToken L)))"
      using np(2,3) by simp
    finally show ?thesis
      using ih by (simp add: lexAll_token [OF np(1)])
  qed
qed

text \<open>
  C8 (the claim is too strong and is amended). The claim: a scanned number is a Float token
  only if a \<^verbatim>\<open>.\<close> follows the digit run and at least one digit is consumed after the
  \<^verbatim>\<open>.\<close>; a digit run followed by \<^verbatim>\<open>.\<close> with no subsequent digit yields an Integer token.
  \<^verbatim>\<open>Lexer::number\<close> sets \<^verbatim>\<open>isFloat\<close> and consumes the \<^verbatim>\<open>.\<close> as soon as the character after
  the digit run is a \<^verbatim>\<open>.\<close>, without looking at what follows it: the sources \<^verbatim>\<open>1.\<close> and
  \<^verbatim>\<open>7.x\<close> both start with a Float token whose text ends with the \<^verbatim>\<open>.\<close>.
\<close>

theorem digits_dot_is_Float:
  "fst (nextToken (Lexer_new ''1.'')) =
     \<lparr>kind = TK_Float, tok_text = ''1.'', tok_line = 1, tok_column = 1\<rparr>
   \<and> fst (nextToken (Lexer_new ''7.x'')) =
     \<lparr>kind = TK_Float, tok_text = ''7.'', tok_line = 1, tok_column = 1\<rparr>"
  by code_simp

text \<open>
  C8, as amended. Whenever the next significant character is a digit, \<^verbatim>\<open>nextToken\<close>
  returns a Float token if and only if a \<^verbatim>\<open>.\<close> immediately follows the digit run, whether
  or not a digit follows the \<^verbatim>\<open>.\<close>; the token is an Integer token otherwise. The token's
  text is the digit run, followed for a Float by the \<^verbatim>\<open>.\<close> and the (possibly empty) run of
  digits after it.
\<close>

theorem number_is_Float_iff_dot_follows:
  assumes "isdigit (peek (skipWhitespace L))"
  shows "kind (fst (nextToken L)) =
           (if dropWhile isdigit (remaining (skipWhitespace L)) \<noteq> []
               \<and> hd (dropWhile isdigit (remaining (skipWhitespace L))) = CHR ''.''
            then TK_Float else TK_Integer)
       \<and> tok_text (fst (nextToken L)) =
           takeWhile isdigit (remaining (skipWhitespace L)) @
           (if dropWhile isdigit (remaining (skipWhitespace L)) \<noteq> []
               \<and> hd (dropWhile isdigit (remaining (skipWhitespace L))) = CHR ''.''
            then CHR ''.'' # takeWhile isdigit (tl (dropWhile isdigit (remaining (skipWhitespace L))))
            else [])"
proof -
  let ?S = "(skipWhitespace L)\<lparr>startPosition := position (skipWhitespace L)\<rparr>"
  have d: "isdigit (peek ?S)" using assms by simp
  then have "peek ?S \<noteq> CHR 0x00" "\<not> isalpha (peek ?S)" "peek ?S \<noteq> CHR ''_''"
    by (auto simp: isdigit_def isalpha_def Let_def)
  with d have eq: "nextToken L = number ?S" by (simp add: nextToken_def Let_def)
  have "position ?S < length (source ?S)" using \<open>peek ?S \<noteq> CHR 0x00\<close> by (rule peek_inside)
  then have le: "position ?S \<le> length (source ?S)" by simp
  have sp: "startPosition ?S = position ?S" by simp
  from number_result(1,2) [OF sp le] show ?thesis by (simp add: eq)
qed

text \<open>The amended C8 at the source \<^verbatim>\<open>  12.x\<close>: a Float token with the text \<^verbatim>\<open>12.\<close>.\<close>

theorem number_is_Float_iff_dot_follows_witness:
  "kind (fst (nextToken (Lexer_new ''  12.x''))) = TK_Float
   \<and> tok_text (fst (nextToken (Lexer_new ''  12.x''))) = ''12.''"
proof -
  have r: "remaining (skipWhitespace (Lexer_new ''  12.x'')) = ''12.x''"
    by code_simp
  have p: "isdigit (peek (skipWhitespace (Lexer_new ''  12.x'')))"
    by code_simp
  from number_is_Float_iff_dot_follows [OF p] show ?thesis
    unfolding r by (simp add: isdigit_def)
qed

text \<open>
  C9 (the claim is too strong and is amended). The claim: for every source text, lexing it to
  exhaustion and concatenating the tokens' texts in production order yields the source with
  white space and comments removed, in particular for sources containing string literals.
  The text of a String token is the literal without its two quotes (\<^verbatim>\<open>Lexer::string\<close> takes
  \<^verbatim>\<open>substr(startPosition + 1, fullLen - 2)\<close>), so the quotes are lost: the source
  \<^verbatim>\<open>"a"\<close> lexes to tokens whose texts concatenate to \<^verbatim>\<open>a\<close>.
\<close>

theorem string_literal_loses_quotes:
  "concat (map tok_text (lexAll (Lexer_new [CHR 0x22, CHR ''a'', CHR 0x22]))) = ''a''
   \<and> strip [CHR 0x22, CHR ''a'', CHR 0x22] = [CHR 0x22, CHR ''a'', CHR 0x22]"
  by code_simp

text \<open>
  C9, as amended. For every source text that contains no double quote (hence no string
  literal) and no NUL byte, lexing it to exhaustion and concatenating the tokens' texts in
  production order yields the source with white space and comments removed.
\<close>

theorem lex_round_trip:
  assumes "CHR 0x00 \<notin> set src" and "CHR 0x22 \<notin> set src"
  shows "concat (map tok_text (lexAll (Lexer_new src))) = strip src"
  using lexAll_strip [of "Lexer_new src"] assms by (simp add: remaining_def Lexer_new_def)

text \<open>The amended C9 at a source with white space, a comment, and tokens of several kinds.\<close>

theorem lex_round_trip_witness:
  "concat (map tok_text (lexAll (Lexer_new ''x = y1 # note
  f(2.5)''))) = ''x=y1f(2.5)''"
  using lex_round_trip [of "''x = y1 # note
  f(2.5)''"]
  by (simp add: isspace_def)

text \<open>
  The round trip needs a source without NUL bytes: \<^verbatim>\<open>peek\<close> reports the end of the input as
  the character NUL, so \<^verbatim>\<open>nextToken\<close> takes a NUL byte inside the source for the end of it.
\<close>

lemma NUL_ends_lexing:
  "map tok_text (lexAll (Lexer_new [CHR ''a'', CHR 0x00, CHR ''b''])) = [''a'', '''']
   \<and> strip [CHR ''a'', CHR 0x00, CHR ''b''] = [CHR ''a'', CHR 0x00, CHR ''b'']"
  by code_simp


section \<open>Properties of the type checker\<close>

text \<open>
  Every visit of an expression fills the slot of the node it visits. So the
  dereferences of \<^verbatim>\<open>visit(BinaryExpr&)\<close>, \<^verbatim>\<open>visit(IndexExpr&)\<close>,
  \<^verbatim>\<open>visit(ArrayLiteralExpr&)\<close> and \<^verbatim>\<open>visit(VarDeclStmt&)\<close> never meet a null slot.
\<close>

lemma visitExpr_sets_type: "expr_type (visitExpr tc e) \<noteq> None"
  by (induction e) (auto simp: Let_def split: option.splits Type.splits)

lemma visitExpr_annotated: "annotated (visitExpr tc e)"
proof (induction e)
  case (BinaryExpr ty op l r)
  then show ?case
    by (auto simp: Let_def visitExpr_sets_type)
next
  case (CallExpr ty callee args)
  then show ?case
    by (auto simp: Let_def list_all_iff split: option.splits Type.splits)
next
  case (ArrayLiteralExpr ty elements)
  then show ?case by (auto simp: Let_def list_all_iff)
qed (auto simp: Let_def split: option.splits Type.splits)

lemma visit_stmtAll_annotated:
  "stmtAll annotated (fst (visitStmt tc s))"
  "list_all (stmtAll annotated) (fst (visitBlock tc ss))"
  by (induction tc s and tc ss rule: visitStmt_visitBlock.induct)
     (auto simp: Let_def visitExpr_annotated split: prod.splits)

text \<open>
  C2, as the claim states it, fails. The claim: after the type checker has run over a
  module, every expression node has a non-null type slot, the two sides of an assignment
  with a non-l-value left side included. For the module of the one statement \<^verbatim>\<open>1 = 2\<close>
  the checker types the assignment \<^verbatim>\<open>void\<close> and returns before it visits either side:
  the slots of both literals are still null.
\<close>

theorem check_leaves_null_slots:
  "\<not> list_all (stmtAll allTyped)
       (fst (check TypeChecker_new
          [ExprStmt (BinaryExpr None ''=''
             (LiteralExpr None ''1'' False False False)
             (LiteralExpr None ''2'' False False False))]))"
  by (simp add: check_def)

text \<open>
  C2, amended. After the type checker has run over a module, every expression node has
  a non-null type slot, except the nodes below an assignment whose left side is not a
  Variable, MemberAccess or Index expression: the checker types such an assignment
  \<^verbatim>\<open>void\<close> and leaves its two sides as they were, unvisited.
\<close>

theorem check_annotates_outside_invalid_assignments:
  "list_all (stmtAll annotated) (fst (check tc stmts))
   \<and> (\<not> isValidLHS l \<longrightarrow>
        visitExpr tc (BinaryExpr ty ''='' l r) = BinaryExpr (Some VoidType) ''='' l r)"
  by (simp add: check_def visit_stmtAll_annotated)

theorem check_annotates_outside_invalid_assignments_witness:
  "list_all (stmtAll annotated)
     (fst (check TypeChecker_new
        [FunctionStmt ''f'' [(''a'', ''int'')] ''int''
           (Some [VarDeclStmt ''x'' [] (Some (BinaryExpr None ''+'' (VariableExpr None ''a'')
                                                 (LiteralExpr None ''1'' False False False))),
                  ExprStmt (BinaryExpr None ''='' (VariableExpr None ''x'')
                              (CallExpr None ''f'' [VariableExpr None ''x''])),
                  ReturnStmt (Some (VariableExpr None ''x''))]),
         ExprStmt (BinaryExpr None ''='' (LiteralExpr None ''1'' False False False)
                              (VariableExpr None ''y''))]))
   \<and> visitExpr TypeChecker_new
        (BinaryExpr None ''='' (LiteralExpr None ''1'' False False False) (VariableExpr None ''y''))
      = BinaryExpr (Some VoidType) ''='' (LiteralExpr None ''1'' False False False)
          (VariableExpr None ''y'')"
  using check_annotates_outside_invalid_assignments
    [of TypeChecker_new
        "[FunctionStmt ''f'' [(''a'', ''int'')] ''int''
           (Some [VarDeclStmt ''x'' [] (Some (BinaryExpr None ''+'' (VariableExpr None ''a'')
                                                 (LiteralExpr None ''1'' False False False))),
                  ExprStmt (BinaryExpr None ''='' (VariableExpr None ''x'')
                              (CallExpr None ''f'' [VariableExpr None ''x''])),
                  ReturnStmt (Some (VariableExpr None ''x''))]),
         ExprStmt (BinaryExpr None ''='' (LiteralExpr None ''1'' False False False)
                              (VariableExpr None ''y''))]"
        "LiteralExpr None ''1'' False False False" None "VariableExpr None ''y''"]
  by simp

text \<open>
  C7. For a function declaration with a body, the symbol table after the visit is the
  table from just after the function's own binding was registered, which is also the
  table the visit of the same declaration without a body leaves: the bindings of the
  parameters and the bindings made inside the body are gone.
\<close>

theorem function_scope_restored:
  "symbolTable (snd (visitStmt tc (FunctionStmt name params returnTypeName (Some body))))
     = (symbolTable tc)(name \<mapsto>
         FunctionType (resolveType (structDefs tc) returnTypeName)
           (map (\<lambda>p. resolveType (structDefs tc) (snd p)) params))
   \<and> symbolTable (snd (visitStmt tc (FunctionStmt name params returnTypeName (Some body))))
     = symbolTable (snd (visitStmt tc (FunctionStmt name params returnTypeName None)))"
  by (simp add: Let_def split: prod.splits)

theorem function_scope_restored_witness:
  "symbolTable (snd (visitStmt TypeChecker_new
      (FunctionStmt ''f'' [(''a'', ''int'')] ''int''
         (Some [VarDeclStmt ''x'' ''int'' None, ReturnStmt (Some (VariableExpr None ''a''))]))))
    = Map.empty(''f'' \<mapsto> FunctionType IntType [IntType])
   \<and> fst (visitStmt TypeChecker_new
      (FunctionStmt ''f'' [(''a'', ''int'')] ''int''
         (Some [VarDeclStmt ''x'' ''int'' None, ReturnStmt (Some (VariableExpr None ''a''))])))
    = FunctionStmt ''f'' [(''a'', ''int'')] ''int''
         (Some [VarDeclStmt ''x'' ''int'' None,
                ReturnStmt (Some (VariableExpr (Some IntType) ''a''))])"
  using function_scope_restored [of TypeChecker_new "''f''" "[(''a'', ''int'')]" "''int''"
      "[VarDeclStmt ''x'' ''int'' None, ReturnStmt (Some (VariableExpr None ''a''))]"]
  by (simp add: TypeChecker_new_def resolveType.simps)


section \<open>Properties of the parser\<close>

lemma parseBinary_rightOperand:
  "parseBinary (Suc n) exprPrec lhs P =
     (if getPrecedence (kind (currentToken P)) < exprPrec then Inr (lhs, P)
      else case rightOperand n (getPrecedence (kind (currentToken P))) (Parser_advance P) of
             Inl err \<Rightarrow> Inl err
           | Inr (rhs', P3) \<Rightarrow>
               parseBinary n exprPrec (BinaryExpr None (tok_text (currentToken P)) lhs rhs') P3)"
  by (simp add: rightOperand_def Let_def split: sum.splits prod.splits)












lemma parseBinary_result_prec:
  "parseBinary n q lhs P = Inr (e, P') \<Longrightarrow> getPrecedence (kind (currentToken P')) < q"
proof (induction n arbitrary: lhs P)
  case 0
  then show ?case by simp
next
  case (Suc n)
  then show ?case
    by (auto simp: parseBinary_rightOperand simp del: parseBinary.simps split: if_splits sum.splits)
qed

lemma rightOperand_result_prec:
  "rightOperand n p P1 = Inr (r, P') \<Longrightarrow> getPrecedence (kind (currentToken P')) \<le> p"
  using parseBinary_result_prec [of n "p + 1" _ _ r P']
  by (auto simp: rightOperand_def Let_def split: sum.splits if_splits)

lemma assignment_operand_ends:
  assumes "rightOperand n 1 P1 = Inr (r, P')"
  shows "kind (currentToken P') = TK_Equal \<or> getPrecedence (kind (currentToken P')) = -1"
  using rightOperand_result_prec [OF assms] by (cases "kind (currentToken P')") simp_all

lemma Parser_advance_Equal_text:
  "kind (currentToken (Parser_advance P)) = TK_Equal \<Longrightarrow>
     tok_text (currentToken (Parser_advance P)) = ''=''"
  using Equal_token_text [of "lexer P"] by (simp add: Parser_advance_def split_beta)





section \<open>Properties of the struct declarations\<close>

lemma getMemberIndex_from_distinct:
  "distinct (map fst fs) \<Longrightarrow> i < length fs \<Longrightarrow>
     getMemberIndex_from k (map (\<lambda>f. (fst f, g (snd f))) fs) (fst (fs ! i)) = k + int i"
proof (induction fs arbitrary: k i)
  case Nil
  then show ?case by simp
next
  case (Cons f fs)
  show ?case
  proof (cases i)
    case 0
    then show ?thesis by simp
  next
    case (Suc j)
    with Cons.prems have "fst (fs ! j) \<in> fst ` set fs" "fst f \<notin> fst ` set fs"
      by auto
    then have "fst f \<noteq> fst (fs ! j)" by metis
    with Cons Suc show ?thesis by simp
  qed
qed

lemma fieldIndicesFrom_other:
  "member \<notin> fst ` set fs \<Longrightarrow> fieldIndicesFrom k fs acc member = acc member"
  by (induction fs arbitrary: k acc) auto

lemma fieldIndicesFrom_distinct:
  "distinct (map fst fs) \<Longrightarrow> i < length fs \<Longrightarrow>
     fieldIndicesFrom k fs acc (fst (fs ! i)) = Some (k + int i)"
proof (induction fs arbitrary: k acc i)
  case Nil
  then show ?case by simp
next
  case (Cons f fs)
  show ?case
  proof (cases i)
    case 0
    with Cons.prems show ?thesis by (simp add: fieldIndicesFrom_other)
  next
    case (Suc j)
    with Cons show ?thesis by simp
  qed
qed

text \<open>
  C6, as the claim states it, fails. The claim: for every struct declaration and every
  field name, the type checker's member index equals the index in the code generator's
  \<^verbatim>\<open>structFieldIndices\<close>. For \<^verbatim>\<open>struct P x: int x: int end\<close>, which the parser accepts,
  \<^verbatim>\<open>getMemberIndex\<close> returns the first field of the name (0), while the loop of the code
  generator overwrites the entry and keeps the last (1).
\<close>

theorem duplicate_field_index_differs:
  "semaMemberIndex
     (snd (visitStmt TypeChecker_new (StructDeclStmt ''P'' [(''x'', ''int''), (''x'', ''int'')])))
     ''P'' ''x'' = Some 0
   \<and> map_sum id (\<lambda>cg. codegenFieldIndex cg ''P'' ''x'')
       (CodeGen_visitStmt exampleLibrary CodeGen_new
          (StructDeclStmt ''P'' [(''x'', ''int''), (''x'', ''int'')])) = Inr (Some 1)"
  by (simp add: semaMemberIndex_def codegenFieldIndex_def visitStructDecl_def CodeGen_new_def
        TypeChecker_new_def getMemberIndex_def Let_def)

text \<open>
  C6, amended. For every struct declaration whose field names are pairwise distinct
  and whose name the code generator has not registered before, and for every field of
  the declaration, the type checker's member index on the registered \<^verbatim>\<open>StructType\<close> and
  the index in the code generator's \<^verbatim>\<open>structFieldIndices\<close> are equal, and are the
  position of the field in declaration order.
\<close>

theorem struct_field_index_agrees:
  assumes "distinct (map fst fs)" and "structTypes cg name = None" and "i < length fs"
  shows "\<exists>cg'. CodeGen_visitStmt lib cg (StructDeclStmt name fs) = Inr cg'
           \<and> codegenFieldIndex cg' name (fst (fs ! i)) = Some (int i)
           \<and> semaMemberIndex (snd (visitStmt tc (StructDeclStmt name fs))) name (fst (fs ! i))
               = Some (int i)"
  using assms
  by (simp add: visitStructDecl_def codegenFieldIndex_def semaMemberIndex_def Let_def
        getMemberIndex_def getMemberIndex_from_distinct fieldIndicesFrom_distinct)


theorem struct_field_index_agrees_witness:
  "(\<exists>cg'. CodeGen_visitStmt exampleLibrary CodeGen_new
             (StructDeclStmt ''Point'' [(''x'', ''int''), (''y'', ''int'')]) = Inr cg'
         \<and> codegenFieldIndex cg' ''Point'' ''y'' = Some 1)
   \<and> semaMemberIndex
        (snd (visitStmt TypeChecker_new (StructDeclStmt ''Point'' [(''x'', ''int''), (''y'', ''int'')])))
        ''Point'' ''y'' = Some 1"
  using struct_field_index_agrees [of "[(''x'', ''int''), (''y'', ''int'')]" CodeGen_new "''Point''" 1
      exampleLibrary TypeChecker_new]
  by (simp add: CodeGen_new_def)


section \<open>Properties of the code generator\<close>

lemma exprStep_refl [simp]: "exprStep cg cg"
  by (simp add: exprStep_def)

lemma exprStep_trans: "exprStep a b \<Longrightarrow> exprStep b c \<Longrightarrow> exprStep a c"
  by (auto simp: exprStep_def)

lemma grows_refl [simp]: "grows cg cg"
  by (simp add: grows_def)

lemma grows_trans: "grows a b \<Longrightarrow> grows b c \<Longrightarrow> grows a c"
  by (auto simp: grows_def)

lemma exprStep_grows: "exprStep a b \<Longrightarrow> grows a b"
  by (simp add: exprStep_def grows_def)

lemma exprStep_validInsert: "exprStep a b \<Longrightarrow> validInsert b = validInsert a"
  by (simp add: exprStep_def validInsert_def)

lemma exprStep_lastValue [simp]: "exprStep cg (cg'\<lparr>lastValue := v\<rparr>) = exprStep cg cg'"
  by (simp add: exprStep_def signatures_def)

lemma exprStep_namedValues [simp]: "exprStep cg (cg'\<lparr>namedValues := v\<rparr>) = exprStep cg cg'"
  by (simp add: exprStep_def signatures_def)

lemma exprStep_emit [simp]: "exprStep cg (emit i cg') = exprStep cg cg'"
  by (simp add: exprStep_def signatures_def emit_def)

lemma exprStep_withResult: "withResult mk ty cg' = (v, cg'') \<Longrightarrow> exprStep cg cg'' = exprStep cg cg'"
  by (auto simp: withResult_def exprStep_def signatures_def emit_def)

lemma exprStep_CreateLoad: "CreateLoad ty p n cg' = (v, cg'') \<Longrightarrow> exprStep cg cg'' = exprStep cg cg'"
  unfolding CreateLoad_def by (rule exprStep_withResult)

lemma exprStep_CreateGEP: "CreateGEP ty p is cg' = (v, cg'') \<Longrightarrow> exprStep cg cg'' = exprStep cg cg'"
  unfolding CreateGEP_def by (rule exprStep_withResult)

lemma exprStep_CreateICmpNE: "CreateICmpNE l r cg' = (v, cg'') \<Longrightarrow> exprStep cg cg'' = exprStep cg cg'"
  unfolding CreateICmpNE_def by (rule exprStep_withResult)

lemma exprStep_CreateCall: "CreateCall f as cg' = (v, cg'') \<Longrightarrow> exprStep cg cg'' = exprStep cg cg'"
  unfolding CreateCall_def by (rule exprStep_withResult)

lemma exprStep_CreateStore [simp]: "exprStep cg (CreateStore v p cg') = exprStep cg cg'"
  by (simp add: CreateStore_def)

lemma exprStep_binaryInstruction [simp]:
  "exprStep cg (binaryInstruction op l r cg') = exprStep cg cg'"
  by (auto simp: binaryInstruction_def exprStep_withResult exprStep_CreateICmpNE split: prod.splits)

lemma exprStep_visitLiteral:
  "visitLiteral lib cg' v isFloat isBool isString = Inr cg'' \<Longrightarrow> exprStep cg cg'' = exprStep cg cg'"
  by (auto simp: visitLiteral_def CreateGlobalStringPtr_def exprStep_def signatures_def
      split: if_splits option.splits)

lemma exprStep_memberAddress:
  "memberAddress cg' base ty m = (r, cg'') \<Longrightarrow> exprStep cg cg'' = exprStep cg cg'"
  by (auto simp: memberAddress_def exprStep_CreateGEP split: option.splits Type.splits prod.splits)

lemma exprStep_indexAddress:
  "indexAddress cg' a i ty = (r, cg'') \<Longrightarrow> exprStep cg cg'' = exprStep cg cg'"
  by (auto simp: indexAddress_def exprStep_CreateGEP split: option.splits Type.splits prod.splits)

lemma exprStep_callMalloc:
  "callMalloc lib ty n cg' = (r, cg'') \<Longrightarrow> exprStep cg cg' \<Longrightarrow> exprStep cg cg''"
  by (auto simp: callMalloc_def Let_def Function_Create_def exprStep_CreateCall
      split: option.splits prod.splits)
     (auto simp: exprStep_def signatures_def)

lemma visitExpr_exprStep:
  "CodeGen_visitExpr lib cg e = Inr cg' \<Longrightarrow> exprStep cg cg'"
  "CodeGen_visitArgs lib cg es argsV = Inr (r, cg') \<Longrightarrow> exprStep cg cg'"
  "CodeGen_storeElements lib cg es i elemType arrayPtr = Inr cg' \<Longrightarrow> exprStep cg cg'"
  "getLValueAddress lib cg e = Inr (a, cg') \<Longrightarrow> exprStep cg cg'"
proof (induction lib cg e and lib cg es argsV and lib cg es i elemType arrayPtr and lib cg e
       arbitrary: cg' and r cg' and cg' and a cg'
       rule: CodeGen_visitExpr_CodeGen_visitArgs_CodeGen_storeElements_getLValueAddress.induct)
  case (1 lib cg ty v isFloat isBool isString)
  then show ?case using exprStep_visitLiteral [of lib cg v isFloat isBool isString cg' cg] by simp
next
  case (2 lib cg ty name)
  then show ?case by (auto simp: exprStep_CreateLoad split: option.splits prod.splits)
next
  case (3 lib cg ty op l r)
  show ?case
  proof (cases "op = ''=''")
    case True
    with "3.prems" "3.IH"(1,2) show ?thesis
      by (auto split: sum.splits option.splits prod.splits intro: exprStep_trans)
  next
    case False
    with "3.prems" "3.IH"(3,4) show ?thesis
      by (auto split: sum.splits option.splits prod.splits intro: exprStep_trans)
  qed
next
  case (4 lib cg ty calleeName args)
  then show ?case
    by (auto simp: exprStep_CreateCall split: sum.splits option.splits prod.splits if_splits)
next
  case (5 lib cg ty obj member)
  then show ?case
    by (auto simp: exprStep_CreateLoad split: sum.splits option.splits prod.splits)
next
  case (6 lib cg ty obj idx)
  then show ?case
    by (auto simp: exprStep_CreateLoad split: sum.splits option.splits prod.splits)
next
  case (7 lib cg ty elements)
  then show ?case
    by (auto simp: Let_def split: sum.splits prod.splits
             intro: exprStep_trans dest: exprStep_callMalloc [OF _ exprStep_refl])
next
  case (8 lib cg argsV)
  then show ?case by simp
next
  case (9 lib cg arg args argsV)
  then show ?case
    by (auto split: sum.splits option.splits intro: exprStep_trans)
next
  case (10 lib cg i elemType arrayPtr)
  then show ?case by simp
next
  case (11 lib cg e es i elemType arrayPtr)
  from "11.prems" obtain cg1 where v: "CodeGen_visitExpr lib cg e = Inr cg1"
    by (auto split: sum.splits)
  obtain gep cg2 where g: "CreateGEP elemType arrayPtr [ConstantInt 64 i] cg1 = (gep, cg2)"
    by (cases "CreateGEP elemType arrayPtr [ConstantInt 64 i] cg1") auto
  from "11.prems" v g have rest:
    "CodeGen_storeElements lib (CreateStore (lastValue cg1) gep cg2) es (i + 1) elemType arrayPtr = Inr cg'"
    by (simp add: Let_def)
  have "exprStep cg cg1" using "11.IH"(1) v by simp
  moreover have "exprStep cg1 (CreateStore (lastValue cg1) gep cg2)"
    using exprStep_CreateGEP [OF g, of cg1] by simp
  moreover have "exprStep (CreateStore (lastValue cg1) gep cg2) cg'"
    using "11.IH"(2) [OF v refl refl g [symmetric] refl rest] .
  ultimately show ?case by (blast intro: exprStep_trans)
next
  case (12 lib cg ty name)
  then show ?case by (auto split: option.splits)
next
  case (13 lib cg ty obj member)
  then show ?case
    by (auto split: sum.splits option.splits prod.splits
             intro: exprStep_trans dest: exprStep_memberAddress)
next
  case (14 lib cg ty obj idx)
  from "14.prems" obtain unused cg0 where l: "getLValueAddress lib cg obj = Inr (unused, cg0)"
    by (auto split: sum.splits)
  with "14.prems" obtain cg1 where v1: "CodeGen_visitExpr lib cg0 obj = Inr cg1"
    by (auto split: sum.splits)
  have s01: "exprStep cg cg1"
    using "14.IH"(1) [OF l] "14.IH"(2) [OF l refl v1] by (rule exprStep_trans)
  show ?case
  proof (cases "lastValue cg1")
    case None
    with "14.prems" l v1 s01 show ?thesis by simp
  next
    case (Some arrayPtr)
    with "14.prems" l v1 obtain cg2 where v2: "CodeGen_visitExpr lib cg1 idx = Inr cg2"
      by (auto split: sum.splits)
    have s12: "exprStep cg1 cg2" using "14.IH"(3) [OF l refl v1 Some v2] .
    show ?thesis
    proof (cases "lastValue cg2")
      case None
      with "14.prems" l v1 Some v2 s01 s12 show ?thesis
        by (auto intro: exprStep_trans)
    next
      case (Some indexVal)
      with "14.prems" l v1 \<open>lastValue cg1 = Some arrayPtr\<close> v2
      have "indexAddress cg2 arrayPtr indexVal (expr_type obj) = (a, cg')" by simp
      from exprStep_indexAddress [OF this, of cg2] have "exprStep cg2 cg'" by simp
      with s01 s12 show ?thesis by (blast intro: exprStep_trans)
    qed
  qed
qed simp_all

lemma grows_lastValue [simp]: "grows cg (cg'\<lparr>lastValue := v\<rparr>) = grows cg cg'"
  by (simp add: grows_def signatures_def)

lemma grows_namedValues [simp]: "grows cg (cg'\<lparr>namedValues := v\<rparr>) = grows cg cg'"
  by (simp add: grows_def signatures_def)

lemma emit_fields [simp]:
  "length (blocks (emit i cg)) = length (blocks cg)"
  "signatures (emit i cg) = signatures cg"
  "insertBlock (emit i cg) = insertBlock cg"
  by (simp_all add: emit_def signatures_def)

lemma grows_emit [simp]: "grows cg (emit i cg') = grows cg cg'"
  by (simp add: grows_def signatures_def emit_def)

lemma validInsert_emit [simp]: "validInsert (emit i cg) = validInsert cg"
  by (simp add: validInsert_def emit_def)

lemma validInsert_lastValue [simp]: "validInsert (cg\<lparr>lastValue := v\<rparr>) = validInsert cg"
  by (simp add: validInsert_def)

lemma validInsert_namedValues [simp]: "validInsert (cg\<lparr>namedValues := v\<rparr>) = validInsert cg"
  by (simp add: validInsert_def)

lemma signatures_Function_insert [simp]:
  "signatures (Function_insert func bb cg) = signatures cg"
proof (cases "func < length (moduleFunctions cg)")
  case True
  then show ?thesis
    by (simp add: signatures_def Function_insert_def map_update signature_def list_update_same_conv)
next
  case False
  then show ?thesis by (simp add: signatures_def Function_insert_def list_update_beyond)
qed

lemma Function_insert_fields [simp]:
  "length (blocks (Function_insert func bb cg)) = length (blocks cg)"
  "insertBlock (Function_insert func bb cg) = insertBlock cg"
  by (simp_all add: Function_insert_def)

lemma grows_Function_insert [simp]: "grows cg (Function_insert func bb cg') = grows cg cg'"
  by (simp add: grows_def)

lemma BasicBlock_Create_fields:
  assumes "BasicBlock_Create name cg = (bb, cg')"
  shows "bb = length (blocks cg)" "length (blocks cg') = Suc (length (blocks cg))"
    "signatures cg' = signatures cg" "insertBlock cg' = insertBlock cg"
  using assms by (auto simp: BasicBlock_Create_def signatures_def)

lemma BasicBlock_Create_in_fields:
  assumes "BasicBlock_Create_in name func cg = (bb, cg')"
  shows "bb = length (blocks cg)" "length (blocks cg') = Suc (length (blocks cg))"
    "signatures cg' = signatures cg" "insertBlock cg' = insertBlock cg"
  using assms
  by (auto simp: BasicBlock_Create_in_def BasicBlock_Create_def split: prod.splits)
     (simp add: signatures_def)

lemma SetInsertPoint_fields [simp]:
  "blocks (SetInsertPoint bb cg) = blocks cg"
  "signatures (SetInsertPoint bb cg) = signatures cg"
  "insertBlock (SetInsertPoint bb cg) = bb"
  by (simp_all add: SetInsertPoint_def signatures_def)

lemma grows_SetInsertPoint [simp]: "grows cg (SetInsertPoint bb cg') = grows cg cg'"
  by (simp add: grows_def)

lemma validInsert_SetInsertPoint [simp]:
  "validInsert (SetInsertPoint bb cg) = (bb < length (blocks cg))"
  by (simp add: validInsert_def)

lemma branchIfOpen_fields [simp]:
  "length (blocks (branchIfOpen bb cg)) = length (blocks cg)"
  "signatures (branchIfOpen bb cg) = signatures cg"
  "insertBlock (branchIfOpen bb cg) = insertBlock cg"
  by (simp_all add: branchIfOpen_def CreateBr_def emit_def signatures_def)

lemma grows_branchIfOpen [simp]: "grows cg (branchIfOpen bb cg') = grows cg cg'"
  by (simp add: grows_def)

lemma widenCondition_exprStep:
  "widenCondition c cg = (v, cg') \<Longrightarrow> exprStep cg cg'"
  using exprStep_CreateICmpNE [of c "ConstantInt 64 0" cg v cg' cg]
  by (auto simp: widenCondition_def split: if_splits)

lemma grows_length: "grows cg cg' \<Longrightarrow> n < length (blocks cg) \<Longrightarrow> n < length (blocks cg')"
  by (simp add: grows_def)

lemma beginIf_step:
  assumes "beginIf hasElse condV cg = Inr (func, elseBB, mergeBB, cg1)"
  shows "grows cg cg1" "validInsert cg1" "elseBB < length (blocks cg1)"
    "mergeBB < length (blocks cg1)"
proof -
  obtain c cga where w: "widenCondition condV cg = (c, cga)"
    by (cases "widenCondition condV cg") auto
  from assms w obtain f where p: "getParent cga = Inr f"
    by (auto simp: beginIf_def split: sum.splits)
  obtain thenBB cgb where t: "BasicBlock_Create_in ''then'' f cga = (thenBB, cgb)"
    by (cases "BasicBlock_Create_in ''then'' f cga") auto
  obtain e cgc where e: "BasicBlock_Create ''else'' cgb = (e, cgc)"
    by (cases "BasicBlock_Create ''else'' cgb") auto
  obtain m cgd where m: "BasicBlock_Create ''ifcont'' cgc = (m, cgd)"
    by (cases "BasicBlock_Create ''ifcont'' cgc") auto
  from assms w p t e m have r: "elseBB = e" "mergeBB = m"
      "cg1 = SetInsertPoint thenBB (CreateCondBr c thenBB (if hasElse then e else m) cgd)"
    by (simp_all add: beginIf_def)
  note ws = widenCondition_exprStep [OF w]
  note tf = BasicBlock_Create_in_fields [OF t]
  note ef = BasicBlock_Create_fields [OF e]
  note mf = BasicBlock_Create_fields [OF m]
  have len: "length (blocks cg1) = length (blocks cg) + 3"
    using ws tf ef mf r by (simp add: CreateCondBr_def exprStep_def)
  have "signatures cg1 = signatures cga"
    using tf ef mf r by (simp add: CreateCondBr_def)
  then show "grows cg cg1"
    using ws len by (simp add: grows_def exprStep_def)
  show "validInsert cg1" using r tf ws len by (simp add: exprStep_def CreateCondBr_def validInsert_def)
  show "elseBB < length (blocks cg1)" using r ef tf ws len by (simp add: exprStep_def)
  show "mergeBB < length (blocks cg1)" using r mf ef tf ws len by (simp add: exprStep_def)
qed

lemma beginWhile_step:
  assumes "beginWhile cg = Inr (func, condBB, loopBB, afterBB, cg1)"
  shows "grows cg cg1" "validInsert cg1" "condBB < length (blocks cg1)"
    "loopBB < length (blocks cg1)" "afterBB < length (blocks cg1)"
proof -
  from assms obtain f where p: "getParent cg = Inr f"
    by (auto simp: beginWhile_def split: sum.splits)
  obtain c cgb where c: "BasicBlock_Create_in ''whilecond'' f cg = (c, cgb)"
    by (cases "BasicBlock_Create_in ''whilecond'' f cg") auto
  obtain l cgc where l: "BasicBlock_Create ''whilebody'' cgb = (l, cgc)"
    by (cases "BasicBlock_Create ''whilebody'' cgb") auto
  obtain a cgd where a: "BasicBlock_Create ''afterwhile'' cgc = (a, cgd)"
    by (cases "BasicBlock_Create ''afterwhile'' cgc") auto
  from assms p c l a have r: "condBB = c" "loopBB = l" "afterBB = a"
      "cg1 = SetInsertPoint c (CreateBr c cgd)"
    by (auto simp: beginWhile_def)
  note cf = BasicBlock_Create_in_fields [OF c]
  note lf = BasicBlock_Create_fields [OF l]
  note af = BasicBlock_Create_fields [OF a]
  have len: "length (blocks cg1) = length (blocks cg) + 3"
    using cf lf af r by (simp add: CreateBr_def)
  have "signatures cg1 = signatures cg"
    using cf lf af r by (simp add: CreateBr_def)
  then show "grows cg cg1" using len by (simp add: grows_def)
  show "validInsert cg1" using r cf len by (simp add: CreateBr_def validInsert_def)
  show "condBB < length (blocks cg1)" using r cf len by simp
  show "loopBB < length (blocks cg1)" using r lf cf len by simp
  show "afterBB < length (blocks cg1)" using r af lf cf len by simp
qed

lemma enterLoopBody_step:
  "grows cg (enterLoopBody func loopBB afterBB condV cg') = grows cg cg'"
  "length (blocks (enterLoopBody func loopBB afterBB condV cg')) = length (blocks cg')"
  "insertBlock (enterLoopBody func loopBB afterBB condV cg') = loopBB"
proof -
  obtain c cga where w: "widenCondition condV cg' = (c, cga)"
    by (cases "widenCondition condV cg'") auto
  note ws = widenCondition_exprStep [OF w]
  have r: "enterLoopBody func loopBB afterBB condV cg' =
      SetInsertPoint loopBB (Function_insert func loopBB (CreateCondBr c loopBB afterBB cga))"
    using w by (simp add: enterLoopBody_def)
  show "length (blocks (enterLoopBody func loopBB afterBB condV cg')) = length (blocks cg')"
    using ws by (simp add: r CreateCondBr_def exprStep_def)
  show "insertBlock (enterLoopBody func loopBB afterBB condV cg') = loopBB"
    by (simp add: r)
  have "prefix (signatures cg) (signatures cga) = prefix (signatures cg) (signatures cg')"
  proof -
    have "prefix (signatures cg') (signatures cga)" using ws by (simp add: exprStep_def)
    moreover have "signatures cga = signatures cg'"
      using w exprStep_CreateICmpNE
      by (auto simp: widenCondition_def CreateICmpNE_def withResult_def signatures_def emit_def
          split: if_splits)
    ultimately show ?thesis by simp
  qed
  then show "grows cg (enterLoopBody func loopBB afterBB condV cg') = grows cg cg'"
    using ws by (simp add: r grows_def CreateCondBr_def exprStep_def)
qed

lemma createEntryBlockAlloca_exprStep:
  "createEntryBlockAlloca func n ty cg' = Inr (a, cg'') \<Longrightarrow> exprStep cg cg'' = exprStep cg cg'"
  by (auto simp: createEntryBlockAlloca_def exprStep_def signatures_def split: list.splits)

lemma declareVariable_exprStep:
  "declareVariable func name typeName initVal cg = Inr cg' \<Longrightarrow> exprStep cg cg'"
  by (auto simp: declareVariable_def Let_def
      dest!: createEntryBlockAlloca_exprStep [where cg = cg]
      split: if_splits sum.splits option.splits)

lemma createPrototype_fields:
  assumes "createPrototype name params rt cg = (func, cg1)"
  shows "func = length (moduleFunctions cg)" "blocks cg1 = blocks cg"
    "insertBlock cg1 = insertBlock cg" "namedValues cg1 = namedValues cg"
    "signatures cg1 = signatures cg @
       [(name, getType (structTypes cg) rt, map (\<lambda>p. getType (structTypes cg) (snd p)) params)]"
    "length (moduleFunctions cg1) = Suc (length (moduleFunctions cg))"
  using assms
  by (auto simp: createPrototype_def Function_Create_def Let_def signatures_def signature_def)

lemma bindArguments_exprStep:
  "bindArguments func ps ts idx cg = Inr cg' \<Longrightarrow> exprStep cg cg'"
proof (induction func ps ts idx cg rule: bindArguments.induct)
  case (1 func p ps t ts idx cg)
  from "1.prems" obtain a cg1 where c: "createEntryBlockAlloca func (fst p) t cg = Inr (a, cg1)"
    by (auto split: sum.splits)
  from createEntryBlockAlloca_exprStep [OF c, of cg] have s1: "exprStep cg cg1" by simp
  let ?cg2 = "(CreateStore (Some (Argument idx t)) (AllocaInst_value a) cg1)
                \<lparr>namedValues := (namedValues (CreateStore (Some (Argument idx t)) (AllocaInst_value a) cg1))
                   (fst p \<mapsto> a)\<rparr>"
  from "1.prems" c have "bindArguments func ps ts (idx + 1) ?cg2 = Inr cg'"
    by (simp add: Let_def)
  from "1.IH" [OF c refl refl this] have "exprStep ?cg2 cg'" .
  moreover have "exprStep cg ?cg2" using s1 by simp
  ultimately show ?case by (rule exprStep_trans [rotated])
qed simp_all

lemma enterFunction_step:
  assumes "enterFunction func params cg = Inr cg'"
  shows "grows cg cg'" "validInsert cg'"
proof -
  obtain bb cg1 where b: "BasicBlock_Create_in ''entry'' func cg = (bb, cg1)"
    by (cases "BasicBlock_Create_in ''entry'' func cg") auto
  note bf = BasicBlock_Create_in_fields [OF b]
  let ?cg2 = "(SetInsertPoint bb cg1)\<lparr>namedValues := Map.empty\<rparr>"
  from assms b have "bindArguments func params (fn_paramTypes (moduleFunctions ?cg2 ! func)) 0 ?cg2 = Inr cg'"
    by (simp add: enterFunction_def Let_def)
  from bindArguments_exprStep [OF this] have s: "exprStep ?cg2 cg'" .
  have g: "grows cg ?cg2" using bf by (simp add: grows_def signatures_def SetInsertPoint_def)
  show "grows cg cg'" using g exprStep_grows [OF s] by (rule grows_trans)
  have "validInsert ?cg2" using bf by (simp add: validInsert_def SetInsertPoint_def)
  then show "validInsert cg'" using exprStep_validInsert [OF s] by simp
qed

lemma leaveFunction_step:
  "grows cg (leaveFunction func rt oldBB oldNamedValues cg') = grows cg cg'"
  "validInsert (leaveFunction func rt oldBB oldNamedValues cg') = (oldBB < length (blocks cg'))"
  by (simp_all add: leaveFunction_def Let_def validInsert_def SetInsertPoint_def grows_def signatures_def
      emit_def)

lemma visitStructDecl_exprStep: "exprStep cg (visitStructDecl name fs cg)"
  by (simp add: visitStructDecl_def exprStep_def signatures_def Let_def)

lemma stmtStep_refl [simp]: "stmtStep cg cg"
  by (simp add: stmtStep_def)

lemma stmtStep_trans: "stmtStep a b \<Longrightarrow> stmtStep b c \<Longrightarrow> stmtStep a c"
  by (auto simp: stmtStep_def intro: grows_trans)

lemma exprStep_stmtStep: "exprStep a b \<Longrightarrow> stmtStep a b"
  by (simp add: stmtStep_def exprStep_grows exprStep_validInsert)

lemma stmtStep_moved:
  "stmtStep cg cg' \<Longrightarrow> bb < length (blocks cg') \<Longrightarrow>
     stmtStep cg (SetInsertPoint bb (Function_insert func bb (branchIfOpen target cg')))"
  by (simp add: stmtStep_def)

lemma stmtStep_length: "stmtStep cg cg' \<Longrightarrow> n < length (blocks cg) \<Longrightarrow> n < length (blocks cg')"
  by (simp add: stmtStep_def grows_def)

lemma visitStmt_stmtStep:
  "CodeGen_visitStmt lib cg s = Inr cg' \<Longrightarrow> stmtStep cg cg'"
  "CodeGen_visitBlock lib cg ss = Inr cg' \<Longrightarrow> stmtStep cg cg'"
proof (induction lib cg s and lib cg ss arbitrary: cg' and cg'
       rule: CodeGen_visitStmt_CodeGen_visitBlock.induct)
  case (1 lib cg e)
  then show ?case by (simp add: visitExpr_exprStep(1) exprStep_stmtStep)
next
  case (2 lib cg)
  then show ?case by (auto simp: CreateRet_def stmtStep_def)
next
  case (3 lib cg v)
  then obtain cg1 where v: "CodeGen_visitExpr lib cg v = Inr cg1" and r: "cg' = CreateRet (lastValue cg1) cg1"
    by (auto split: sum.splits)
  from visitExpr_exprStep(1) [OF v] have "exprStep cg (CreateRet (lastValue cg1) cg1)"
    by (simp add: CreateRet_def)
  then show ?case using r by (simp add: exprStep_stmtStep)
next
  case (4 lib cg ss)
  then show ?case by simp
next
  case (5 lib cg c thenBranch elseBranch)
  from "5.prems" obtain cg0 where c: "CodeGen_visitExpr lib cg c = Inr cg0"
    by (auto split: sum.splits)
  have s0: "stmtStep cg cg0" using visitExpr_exprStep(1) [OF c] by (rule exprStep_stmtStep)
  show ?case
  proof (cases "lastValue cg0")
    case None
    with "5.prems" c s0 show ?thesis by simp
  next
    case (Some condV)
    with "5.prems" c obtain func elseBB mergeBB cg1
      where b: "beginIf (elseBranch \<noteq> None) condV cg0 = Inr (func, elseBB, mergeBB, cg1)"
      by (auto split: sum.splits)
    note bs = beginIf_step [OF b]
    have s1: "stmtStep cg0 cg1" using bs by (simp add: stmtStep_def)
    from "5.prems" c Some b obtain cg2 where t: "CodeGen_visitBlock lib cg1 thenBranch = Inr cg2"
      by (auto split: sum.splits)
    have s2: "stmtStep cg1 cg2" using "5.IH"(1) [OF c Some b refl refl refl t] .
    have m2: "mergeBB < length (blocks cg2)" "elseBB < length (blocks cg2)"
      using s2 bs by (auto intro: stmtStep_length)
    show ?thesis
    proof (cases elseBranch)
      case None
      with "5.prems" c Some b t
      have r: "cg' = SetInsertPoint mergeBB (Function_insert func mergeBB (branchIfOpen mergeBB cg2))"
        by simp
      have "stmtStep cg cg2" using s0 s1 s2 by (blast intro: stmtStep_trans)
      then show ?thesis unfolding r using m2(1) by (rule stmtStep_moved)
    next
      case (Some elseStmts)
      let ?cgE = "SetInsertPoint elseBB (Function_insert func elseBB (branchIfOpen mergeBB cg2))"
      from "5.prems" c \<open>lastValue cg0 = Some condV\<close> b t Some
      obtain cg3 where e: "CodeGen_visitBlock lib ?cgE elseStmts = Inr cg3"
        and r: "cg' = SetInsertPoint mergeBB (Function_insert func mergeBB (branchIfOpen mergeBB cg3))"
        by (auto split: sum.splits)
      have s3: "stmtStep ?cgE cg3"
        using "5.IH"(2) [OF c \<open>lastValue cg0 = Some condV\<close> b refl refl refl t Some e] .
      have sE: "stmtStep cg ?cgE"
      proof -
        have "stmtStep cg cg2" using s0 s1 s2 by (blast intro: stmtStep_trans)
        then show ?thesis using m2(2) by (rule stmtStep_moved)
      qed
      have "stmtStep cg cg3" using sE s3 by (rule stmtStep_trans)
      moreover have "mergeBB < length (blocks cg3)"
        using s3 m2(1) by (auto intro: stmtStep_length)
      ultimately show ?thesis unfolding r by (rule stmtStep_moved)
    qed
  qed
next
  case (6 lib cg c body)
  from "6.prems" obtain func condBB loopBB afterBB cg1
    where b: "beginWhile cg = Inr (func, condBB, loopBB, afterBB, cg1)"
    by (auto split: sum.splits)
  note bs = beginWhile_step [OF b]
  have s1: "stmtStep cg cg1" using bs by (simp add: stmtStep_def)
  from "6.prems" b obtain cg2 where c: "CodeGen_visitExpr lib cg1 c = Inr cg2"
    by (auto split: sum.splits)
  note e2 = visitExpr_exprStep(1) [OF c]
  have s2: "stmtStep cg1 cg2" using e2 by (rule exprStep_stmtStep)
  show ?case
  proof (cases "lastValue cg2")
    case None
    with "6.prems" b c have "cg' = cg2" by simp
    with s1 s2 show ?thesis by (blast intro: stmtStep_trans)
  next
    case (Some condV)
    let ?cgL = "enterLoopBody func loopBB afterBB condV cg2"
    from "6.prems" b c Some obtain cg3 where l: "CodeGen_visitBlock lib ?cgL body = Inr cg3"
      and r: "cg' = SetInsertPoint afterBB (Function_insert func afterBB (branchIfOpen condBB cg3))"
      by (auto split: sum.splits)
    have s3: "stmtStep ?cgL cg3" using "6.IH" [OF b refl refl refl refl c Some l] .
    have len2: "length (blocks cg2) = length (blocks cg1)" using e2 by (simp add: exprStep_def)
    have sL: "stmtStep cg1 ?cgL"
      using e2 bs(4) len2
      by (simp add: stmtStep_def enterLoopBody_step exprStep_grows validInsert_def)
    have "stmtStep cg cg3" using s1 sL s3 by (blast intro: stmtStep_trans)
    moreover have "afterBB < length (blocks cg3)"
      using s3 bs(5) len2 by (auto intro: stmtStep_length simp: enterLoopBody_step)
    ultimately show ?thesis unfolding r by (rule stmtStep_moved)
  qed
next
  case (7 lib cg name typeName initializer)
  then show ?case
    by (auto split: sum.splits option.splits
        dest!: declareVariable_exprStep visitExpr_exprStep(1)
        intro: exprStep_stmtStep exprStep_trans)
next
  case (8 lib cg name params returnTypeName)
  obtain func cg1 where p: "createPrototype name params returnTypeName cg = (func, cg1)"
    by (cases "createPrototype name params returnTypeName cg") auto
  from createPrototype_fields [OF p] "8.prems" p show ?case
    by (simp add: stmtStep_def grows_def validInsert_def)
next
  case (9 lib cg name params returnTypeName body)
  obtain func cg1 where p: "createPrototype name params returnTypeName cg = (func, cg1)"
    by (cases "createPrototype name params returnTypeName cg") auto
  note pf = createPrototype_fields [OF p]
  from "9.prems" p obtain cg2 where en: "enterFunction func params cg1 = Inr cg2"
    by (auto simp: Let_def split: sum.splits)
  from "9.prems" p en obtain cg3 where b: "CodeGen_visitBlock lib cg2 body = Inr cg3"
    and r: "cg' = leaveFunction func returnTypeName (insertBlock cg1) (namedValues cg1) cg3"
    by (auto simp: Let_def split: sum.splits)
  have s3: "stmtStep cg2 cg3" using "9.IH" [OF refl p [symmetric] refl refl en b] .
  have g1: "grows cg cg1" using pf by (simp add: grows_def)
  have g: "grows cg cg3"
    using g1 enterFunction_step(1) [OF en] s3 by (auto simp: stmtStep_def intro: grows_trans)
  show ?case
    unfolding r stmtStep_def leaveFunction_step
    using g pf(3) by (auto simp: validInsert_def grows_def)
next
  case (10 lib cg name fs)
  then show ?case using visitStructDecl_exprStep [of cg name fs] by (auto intro: exprStep_stmtStep)
next
  case (11 lib cg)
  then show ?case by simp
next
  case (12 lib cg s ss)
  then show ?case by (auto split: sum.splits intro: stmtStep_trans)
qed

lemma prefix_nth: "prefix xs ys \<Longrightarrow> i < length xs \<Longrightarrow> ys ! i = xs ! i"
  by (auto simp: prefix_def nth_append)

lemma grows_signature:
  assumes "grows cg cg'" and "i < length (moduleFunctions cg)"
  shows "signature (moduleFunctions cg' ! i) = signature (moduleFunctions cg ! i)"
    and "i < length (moduleFunctions cg')"
proof -
  from assms(1) have p: "prefix (signatures cg) (signatures cg')" by (simp add: grows_def)
  from assms(2) have i: "i < length (signatures cg)" by (simp add: signatures_def)
  from prefix_length_le [OF p] i show l: "i < length (moduleFunctions cg')"
    by (simp add: signatures_def)
  from prefix_nth [OF p i] i l show "signature (moduleFunctions cg' ! i) = signature (moduleFunctions cg ! i)"
    by (simp add: signatures_def)
qed

lemma emit_instructions:
  "validInsert cg \<Longrightarrow>
     instructions (blocks (emit i cg) ! insertBlock cg) =
       instructions (blocks cg ! insertBlock cg) @ [i]"
  by (simp add: emit_def validInsert_def)

lemma getType_void [simp]: "getType sts ''void'' = VoidTy"
  by (simp add: getType.simps)

lemma isIntegerTy_getType_not_void: "isIntegerTy (getType sts rt) \<Longrightarrow> rt \<noteq> ''void''"
  by auto

lemmas builder_defs =
  createPrototype_def Function_Create_def enterFunction_def BasicBlock_Create_in_def
  BasicBlock_Create_def Function_insert_def SetInsertPoint_def createEntryBlockAlloca_def
  CreateStore_def CreateRet_def CreateBr_def CreateCondBr_def emit_def CreateLoad_def
  CreateGEP_def CreateICmpNE_def CreateCall_def withResult_def AllocaInst_value_def
  getTerminator_def CodeGen_new_def getParent_def leaveFunction_def fabricatedReturn_def


text \<open>
  C5. When the lowering of the body of a function definition leaves the insertion
  block (the final block) without a terminator, the visit of the definition appends
  one instruction to that block: \<^verbatim>\<open>ret void\<close> when the declared return type is
  \<^verbatim>\<open>void\<close>, the return of the constant 0 of its width when the IR return type is an
  integer type, and the return of \<^verbatim>\<open>undef\<close> of the IR return type otherwise.
\<close>

theorem fabricated_return_appended:
  assumes p: "createPrototype name params returnTypeName cg = (func, cg1)"
    and en: "enterFunction func params cg1 = Inr cg2"
    and b: "CodeGen_visitBlock lib cg2 body = Inr cg3"
    and unterminated: "getTerminator cg3 (insertBlock cg3) = None"
  shows "\<exists>cg' r.
      CodeGen_visitStmt lib cg (FunctionStmt name params returnTypeName (Some body)) = Inr cg'
      \<and> instructions (blocks cg' ! insertBlock cg3) = instructions (blocks cg3 ! insertBlock cg3) @ [r]
      \<and> (returnTypeName = ''void'' \<longrightarrow> r = Ret None)
      \<and> (isIntegerTy (getType (structTypes cg) returnTypeName) \<longrightarrow>
           r = Ret (Some (ConstantInt
                 (getIntegerBitWidth (getType (structTypes cg) returnTypeName)) 0)))
      \<and> (returnTypeName \<noteq> ''void'' \<and> \<not> isIntegerTy (getType (structTypes cg) returnTypeName) \<longrightarrow>
           r = Ret (Some (UndefValue (getType (structTypes cg) returnTypeName))))"
proof -
  let ?retTy = "getType (structTypes cg) returnTypeName"
  let ?r = "fabricatedReturn returnTypeName ?retTy"
  let ?cg' = "leaveFunction func returnTypeName (insertBlock cg1) (namedValues cg1) cg3"
  note pf = createPrototype_fields [OF p]
  have visit: "CodeGen_visitStmt lib cg (FunctionStmt name params returnTypeName (Some body)) = Inr ?cg'"
    using p en b by (simp add: Let_def)
  have g13: "grows cg1 cg3"
    using enterFunction_step(1) [OF en] visitStmt_stmtStep(2) [OF b]
    by (auto simp: stmtStep_def intro: grows_trans)
  have valid: "validInsert cg3"
    using enterFunction_step(2) [OF en] visitStmt_stmtStep(2) [OF b] by (simp add: stmtStep_def)
  have func1: "func < length (moduleFunctions cg1)"
    using pf(1,6) by simp
  have "signature (moduleFunctions cg1 ! func) = signatures cg1 ! func"
    using func1 by (simp add: signatures_def)
  also have "\<dots> = (name, ?retTy, map (\<lambda>p. getType (structTypes cg) (snd p)) params)"
    using pf(1,5) by (simp add: signatures_def nth_append)
  finally have "signature (moduleFunctions cg3 ! func) =
      (name, ?retTy, map (\<lambda>p. getType (structTypes cg) (snd p)) params)"
    using grows_signature(1) [OF g13 func1] by simp
  then have ret: "fn_returnType (moduleFunctions cg3 ! func) = ?retTy"
    by (simp add: signature_def)
  have "blocks ?cg' = blocks (emit ?r cg3)"
    using unterminated ret by (simp add: leaveFunction_def Let_def SetInsertPoint_def)
  then have ins: "instructions (blocks ?cg' ! insertBlock cg3) =
      instructions (blocks cg3 ! insertBlock cg3) @ [?r]"
    using emit_instructions [OF valid] by simp
  have cases:
    "returnTypeName = ''void'' \<longrightarrow> ?r = Ret None"
    "isIntegerTy ?retTy \<longrightarrow> ?r = Ret (Some (ConstantInt (getIntegerBitWidth ?retTy) 0))"
    "returnTypeName \<noteq> ''void'' \<and> \<not> isIntegerTy ?retTy \<longrightarrow> ?r = Ret (Some (UndefValue ?retTy))"
    using isIntegerTy_getType_not_void [of "structTypes cg" returnTypeName]
    by (auto simp: fabricatedReturn_def)
  from visit ins cases show ?thesis by blast
qed

theorem fabricated_return_appended_witness:
  "\<exists>cg'. CodeGen_visitStmt exampleLibrary CodeGen_new
           (FunctionStmt ''f'' [(''a'', ''int'')] ''int''
              (Some [ExprStmt (VariableExpr (Some IntType) ''a'')])) = Inr cg'
      \<and> instructions (blocks cg' ! 0) =
           [Alloca 0 (IntegerTy 64) ''a'',
            Store (Some (Argument 0 (IntegerTy 64))) (Register 0 PointerTy),
            Load 1 (IntegerTy 64) (Register 0 PointerTy) ''a'',
            Ret (Some (ConstantInt 64 0))]"
proof -
  let ?lib = exampleLibrary
  let ?body = "[ExprStmt (VariableExpr (Some IntType) ''a'')]"
  let ?p = "createPrototype ''f'' [(''a'', ''int'')] ''int'' CodeGen_new"
  have p: "?p = (fst ?p, snd ?p)" by simp
  have "\<exists>cg2 cg3. enterFunction (fst ?p) [(''a'', ''int'')] (snd ?p) = Inr cg2
      \<and> CodeGen_visitBlock ?lib cg2 ?body = Inr cg3
      \<and> getTerminator cg3 (insertBlock cg3) = None \<and> insertBlock cg3 = 0
      \<and> instructions (blocks cg3 ! 0) =
           [Alloca 0 (IntegerTy 64) ''a'',
            Store (Some (Argument 0 (IntegerTy 64))) (Register 0 PointerTy),
            Load 1 (IntegerTy 64) (Register 0 PointerTy) ''a'']"
    by (simp add: builder_defs getType.simps Let_def)
  then obtain cg2 cg3 where en: "enterFunction (fst ?p) [(''a'', ''int'')] (snd ?p) = Inr cg2"
    and b: "CodeGen_visitBlock ?lib cg2 ?body = Inr cg3"
    and u: "getTerminator cg3 (insertBlock cg3) = None" and i: "insertBlock cg3 = 0"
    and ins: "instructions (blocks cg3 ! 0) =
           [Alloca 0 (IntegerTy 64) ''a'',
            Store (Some (Argument 0 (IntegerTy 64))) (Register 0 PointerTy),
            Load 1 (IntegerTy 64) (Register 0 PointerTy) ''a'']"
    by blast
  from fabricated_return_appended [OF p en b u] i ins show ?thesis
    by (auto simp: CodeGen_new_def getType.simps)
qed


lemma visit_FunctionStmt_registers:
  assumes "CodeGen_visitStmt lib cg (FunctionStmt name params rt body) = Inr cg'"
  shows "name \<in> fst ` set (signatures cg')"
proof -
  obtain func cg1 where p: "createPrototype name params rt cg = (func, cg1)"
    by (cases "createPrototype name params rt cg") auto
  note pf = createPrototype_fields [OF p]
  have in1: "name \<in> fst ` set (signatures cg1)" using pf(5) by simp
  have "grows cg1 cg'"
  proof (cases body)
    case None
    with assms p show ?thesis by simp
  next
    case (Some b)
    with assms p obtain cg2 cg3 where en: "enterFunction func params cg1 = Inr cg2"
      and b: "CodeGen_visitBlock lib cg2 b = Inr cg3"
      and r: "cg' = leaveFunction func rt (insertBlock cg1) (namedValues cg1) cg3"
      by (auto simp: Let_def split: sum.splits)
    have "grows cg1 cg3"
      using enterFunction_step(1) [OF en] visitStmt_stmtStep(2) [OF b]
      by (auto simp: stmtStep_def intro: grows_trans)
    then show ?thesis by (simp add: r leaveFunction_step)
  qed
  then have "set (signatures cg1) \<subseteq> set (signatures cg')"
    by (simp add: grows_def set_mono_prefix)
  with in1 show ?thesis by auto
qed

lemma visitBlock_registers:
  "list_ex (isFunctionNamed n) ss \<Longrightarrow> CodeGen_visitBlock lib cg ss = Inr cg' \<Longrightarrow>
     n \<in> fst ` set (signatures cg')"
proof (induction ss arbitrary: cg)
  case Nil
  then show ?case by simp
next
  case (Cons s ss)
  from Cons.prems(2) obtain cg1 where s: "CodeGen_visitStmt lib cg s = Inr cg1"
    and rest: "CodeGen_visitBlock lib cg1 ss = Inr cg'"
    by (auto split: sum.splits)
  show ?case
  proof (cases "isFunctionNamed n s")
    case True
    then obtain params rt body where "s = FunctionStmt n params rt body"
      by (cases s) auto
    with s have "n \<in> fst ` set (signatures cg1)"
      using visit_FunctionStmt_registers by blast
    moreover have "set (signatures cg1) \<subseteq> set (signatures cg')"
      using visitStmt_stmtStep(2) [OF rest] by (simp add: stmtStep_def grows_def set_mono_prefix)
    ultimately show ?thesis by auto
  next
    case False
    with Cons.prems(1) have "list_ex (isFunctionNamed n) ss" by simp
    from Cons.IH [OF this rest] show ?thesis .
  qed
qed

text \<open>
  C4. The claim is about the implicit entry function, as the sentence of the
  specification it comes from says (\<^emph>\<open>otherwise it contains both the user's main and a
  __init\<close>). For every module that \<^verbatim>\<open>generate\<close> lowers (from a fresh code generator, and
  without an exception of the number conversions), the implicit entry function is the
  first function of the generated module; it is named \<^verbatim>\<open>main\<close> if and only if no
  statement of the module is a function declaration named \<^verbatim>\<open>main\<close>, and \<^verbatim>\<open>__init\<close>
  otherwise; its signature is \<^verbatim>\<open>() -> i64\<close>; and when the user declared \<^verbatim>\<open>main\<close>, the
  module contains a function of that name beside \<^verbatim>\<open>__init\<close>.
\<close>

theorem implicit_entry_function:
  assumes "generate lib CodeGen_new stmts = Inr cg"
  shows "\<exists>entry others. moduleFunctions cg = entry # others
           \<and> signature entry =
               (if hasUserMain stmts then ''__init'' else ''main'', IntegerTy 64, [])
           \<and> (fn_name entry = ''main'') = (\<not> hasUserMain stmts)
           \<and> (hasUserMain stmts \<longrightarrow> ''main'' \<in> fn_name ` set others)"
proof -
  let ?entryName = "if hasUserMain stmts then ''__init'' else ''main''"
  let ?cg1 = "snd (Function_Create (IntegerTy 64) [] ?entryName CodeGen_new)"
  obtain bb cg2 where b: "BasicBlock_Create_in ''entry'' 0 ?cg1 = (bb, cg2)"
    by (cases "BasicBlock_Create_in ''entry'' 0 ?cg1") auto
  note bf = BasicBlock_Create_in_fields [OF b]
  let ?cg3 = "SetInsertPoint bb cg2"
  have "signatures ?cg1 = [(?entryName, IntegerTy 64, [])]"
    by (simp add: Function_Create_def CodeGen_new_def signatures_def signature_def)
  then have sig3: "signatures ?cg3 = [(?entryName, IntegerTy 64, [])]"
    using bf(3) by simp
  from assms b obtain cg4 where v: "CodeGen_visitBlock lib ?cg3 stmts = Inr cg4"
    and r: "signatures cg = signatures cg4"
    by (auto simp: generate_def Function_Create_def CodeGen_new_def Let_def CreateRet_def
        split: sum.splits if_splits)
  have "prefix (signatures ?cg3) (signatures cg)"
    using visitStmt_stmtStep(2) [OF v] r by (simp add: stmtStep_def grows_def)
  then obtain more where m: "signatures cg = (?entryName, IntegerTy 64, []) # more"
    unfolding sig3 by (auto simp: prefix_def)
  then obtain entry others where e: "moduleFunctions cg = entry # others"
    and se: "signature entry = (?entryName, IntegerTy 64, [])"
    and so: "map signature others = more"
    by (auto simp: signatures_def)
  have name: "fn_name entry = ?entryName" using se by (simp add: signature_def)
  have "''main'' \<in> fn_name ` set others" if u: "hasUserMain stmts"
  proof -
    from u have "''main'' \<in> fst ` set (signatures cg4)"
      using visitBlock_registers [OF _ v] by (simp add: hasUserMain_def)
    then have "''main'' \<in> fst ` set ((''__init'', IntegerTy 64, []) # more)"
      using r m u by simp
    then have "''main'' \<in> fst ` set more" by auto
    with so show ?thesis by (auto simp: signature_def)
  qed
  with e se name show ?thesis by auto
qed


theorem implicit_entry_function_witness:
  "\<exists>entry others.
      moduleFunctions (projr (generate exampleLibrary CodeGen_new
         [FunctionStmt ''main'' [] ''void'' (Some []),
          ExprStmt (CallExpr (Some VoidType) ''main'' [])])) = entry # others
      \<and> signature entry = (''__init'', IntegerTy 64, [])
      \<and> ''main'' \<in> fn_name ` set others"
proof -
  let ?stmts = "[FunctionStmt ''main'' [] ''void'' (Some []),
          ExprStmt (CallExpr (Some VoidType) ''main'' [])]"
  let ?g = "generate exampleLibrary CodeGen_new ?stmts"
  have "\<not> isl ?g" by code_simp
  then have g: "?g = Inr (projr ?g)" by simp
  have u: "hasUserMain ?stmts" by code_simp
  from implicit_entry_function [OF g] u show ?thesis by auto
qed

text \<open>
  The module \<^verbatim>\<open>def main() end\<close>: the generated module holds \<^verbatim>\<open>__init\<close>, the implicit
  entry function, and the user's \<^verbatim>\<open>main\<close>.
\<close>

lemma user_main_and_module_main:
  "hasUserMain [FunctionStmt ''main'' [] ''void'' (Some [])]
   \<and> map_sum id (\<lambda>cg. map fn_name (moduleFunctions cg))
        (generate exampleLibrary CodeGen_new [FunctionStmt ''main'' [] ''void'' (Some [])])
      = Inr [''__init'', ''main'']"
  by code_simp


section \<open>Struct declarations across a module\<close>

text \<open>
  No visit of the code generator other than that of a struct declaration writes
  \<^verbatim>\<open>structTypes\<close> or \<^verbatim>\<open>structFieldIndices\<close>.
\<close>

lemma sameStructs_refl [simp]: "sameStructs cg cg"
  by (simp add: sameStructs_def)

lemma sameStructs_trans: "sameStructs a b \<Longrightarrow> sameStructs b c \<Longrightarrow> sameStructs a c"
  by (simp add: sameStructs_def)

lemma sameStructs_updates [simp]:
  "sameStructs cg (cg'\<lparr>lastValue := v\<rparr>) = sameStructs cg cg'"
  "sameStructs cg (cg'\<lparr>namedValues := nv\<rparr>) = sameStructs cg cg'"
  "sameStructs cg (emit i cg') = sameStructs cg cg'"
  "sameStructs cg (SetInsertPoint bb cg') = sameStructs cg cg'"
  "sameStructs cg (Function_insert func bb cg') = sameStructs cg cg'"
  "sameStructs cg (CreateStore sv p cg') = sameStructs cg cg'"
  "sameStructs cg (CreateRet rv cg') = sameStructs cg cg'"
  "sameStructs cg (CreateBr bb cg') = sameStructs cg cg'"
  "sameStructs cg (CreateCondBr c t e cg') = sameStructs cg cg'"
  "sameStructs cg (branchIfOpen bb cg') = sameStructs cg cg'"
  by (simp_all add: sameStructs_def emit_def SetInsertPoint_def Function_insert_def CreateStore_def
        CreateRet_def CreateBr_def CreateCondBr_def branchIfOpen_def)

lemma structs_kept [simp]:
  "structTypes (emit i cg) = structTypes cg"
  "structFieldIndices (emit i cg) = structFieldIndices cg"
  "structTypes (SetInsertPoint bb cg) = structTypes cg"
  "structFieldIndices (SetInsertPoint bb cg) = structFieldIndices cg"
  "structTypes (Function_insert func bb cg) = structTypes cg"
  "structFieldIndices (Function_insert func bb cg) = structFieldIndices cg"
  "structTypes (CreateStore sv p cg) = structTypes cg"
  "structFieldIndices (CreateStore sv p cg) = structFieldIndices cg"
  "structTypes (CreateRet rv cg) = structTypes cg"
  "structFieldIndices (CreateRet rv cg) = structFieldIndices cg"
  "structTypes (CreateBr bb cg) = structTypes cg"
  "structFieldIndices (CreateBr bb cg) = structFieldIndices cg"
  "structTypes (CreateCondBr c t e cg) = structTypes cg"
  "structFieldIndices (CreateCondBr c t e cg) = structFieldIndices cg"
  "structTypes (branchIfOpen bb cg) = structTypes cg"
  "structFieldIndices (branchIfOpen bb cg) = structFieldIndices cg"
  by (simp_all add: emit_def SetInsertPoint_def Function_insert_def CreateStore_def
        CreateRet_def CreateBr_def CreateCondBr_def branchIfOpen_def)

lemma sameStructs_withResult: "withResult mk ty cg = (v, cg') \<Longrightarrow> sameStructs cg cg'"
  by (auto simp: withResult_def sameStructs_def emit_def)

lemma sameStructs_pairs:
  "CreateLoad ty p nm cg = (v, cg') \<Longrightarrow> sameStructs cg cg'"
  "CreateGEP ty p ix cg = (v, cg') \<Longrightarrow> sameStructs cg cg'"
  "CreateICmpNE l r cg = (v, cg') \<Longrightarrow> sameStructs cg cg'"
  "CreateCall f as cg = (v, cg') \<Longrightarrow> sameStructs cg cg'"
  "CreateGlobalStringPtr str cg = (v, cg') \<Longrightarrow> sameStructs cg cg'"
  "Function_Create rt ats nm cg = (k, cg') \<Longrightarrow> sameStructs cg cg'"
  "BasicBlock_Create nm cg = (k, cg') \<Longrightarrow> sameStructs cg cg'"
  "BasicBlock_Create_in nm func cg = (k, cg') \<Longrightarrow> sameStructs cg cg'"
  "widenCondition c cg = (v, cg') \<Longrightarrow> sameStructs cg cg'"
  "createPrototype name params rtn cg = (k, cg') \<Longrightarrow> sameStructs cg cg'"
  by (auto simp: CreateLoad_def CreateGEP_def CreateICmpNE_def CreateCall_def withResult_def
        CreateGlobalStringPtr_def Function_Create_def BasicBlock_Create_def
        BasicBlock_Create_in_def Function_insert_def widenCondition_def createPrototype_def
        sameStructs_def emit_def Let_def split: if_splits prod.splits)

lemma sameStructs_binaryInstruction [simp]:
  "sameStructs cg (binaryInstruction op l r cg') = sameStructs cg cg'"
  by (auto simp: binaryInstruction_def CreateICmpNE_def withResult_def sameStructs_def emit_def
      split: prod.splits)

lemma sameStructs_visitLiteral:
  "visitLiteral lib cg v isFloat isBool isString = Inr cg' \<Longrightarrow> sameStructs cg cg'"
  by (auto simp: visitLiteral_def CreateGlobalStringPtr_def sameStructs_def
      split: if_splits option.splits)

lemma sameStructs_memberAddress:
  "memberAddress cg base ty m = (r, cg') \<Longrightarrow> sameStructs cg cg'"
  by (auto simp: memberAddress_def sameStructs_pairs split: option.splits Type.splits prod.splits)

lemma sameStructs_indexAddress:
  "indexAddress cg a i ty = (r, cg') \<Longrightarrow> sameStructs cg cg'"
  by (auto simp: indexAddress_def sameStructs_pairs split: option.splits Type.splits prod.splits)

lemma sameStructs_callMalloc:
  "callMalloc lib ty n cg = (r, cg') \<Longrightarrow> sameStructs cg cg'"
  by (auto simp: callMalloc_def Let_def Function_Create_def CreateCall_def withResult_def emit_def
        sameStructs_def split: option.splits prod.splits)

lemma sameStructs_createEntryBlockAlloca:
  "createEntryBlockAlloca func n ty cg = Inr (a, cg') \<Longrightarrow> sameStructs cg cg'"
  by (auto simp: createEntryBlockAlloca_def sameStructs_def split: list.splits)

lemma sameStructs_declareVariable:
  "declareVariable func name typeName initVal cg = Inr cg' \<Longrightarrow> sameStructs cg cg'"
  by (auto simp: declareVariable_def Let_def
      dest!: sameStructs_createEntryBlockAlloca
      split: if_splits sum.splits option.splits)

lemma sameStructs_bindArguments:
  "bindArguments func ps ts idx cg = Inr cg' \<Longrightarrow> sameStructs cg cg'"
proof (induction func ps ts idx cg rule: bindArguments.induct)
  case (1 func p ps t ts idx cg)
  from "1.prems" obtain a cg1 where c: "createEntryBlockAlloca func (fst p) t cg = Inr (a, cg1)"
    by (auto split: sum.splits)
  let ?cg2 = "CreateStore (Some (Argument idx t)) (AllocaInst_value a) cg1"
  let ?cg3 = "?cg2\<lparr>namedValues := (namedValues ?cg2)(fst p \<mapsto> a)\<rparr>"
  from "1.prems" c have r: "bindArguments func ps ts (idx + 1) ?cg3 = Inr cg'"
    by (simp add: Let_def)
  have "sameStructs cg ?cg3" using sameStructs_createEntryBlockAlloca [OF c] by simp
  moreover have "sameStructs ?cg3 cg'" using "1.IH" [OF c refl refl r] .
  ultimately show ?case by (rule sameStructs_trans)
qed simp_all

lemma sameStructs_enterFunction:
  "enterFunction func params cg = Inr cg' \<Longrightarrow> sameStructs cg cg'"
proof -
  assume a: "enterFunction func params cg = Inr cg'"
  obtain bb cg1 where b: "BasicBlock_Create_in ''entry'' func cg = (bb, cg1)"
    by (cases "BasicBlock_Create_in ''entry'' func cg") auto
  let ?cg2 = "(SetInsertPoint bb cg1)\<lparr>namedValues := Map.empty\<rparr>"
  from a b have "bindArguments func params (fn_paramTypes (moduleFunctions ?cg2 ! func)) 0 ?cg2 = Inr cg'"
    by (simp add: enterFunction_def Let_def)
  from sameStructs_bindArguments [OF this] sameStructs_pairs(8) [OF b]
  show ?thesis by (auto intro: sameStructs_trans simp: sameStructs_def)
qed

lemma sameStructs_leaveFunction [simp]:
  "sameStructs cg (leaveFunction func rtn oldBB oldNV cg') = sameStructs cg cg'"
  by (simp add: leaveFunction_def Let_def)

lemma sameStructs_beginIf:
  "beginIf hasElse condV cg = Inr (func, elseBB, mergeBB, cg') \<Longrightarrow> sameStructs cg cg'"
  by (auto simp: beginIf_def Let_def sameStructs_def split: prod.splits sum.splits
      dest!: sameStructs_pairs(7,8,9))

lemma sameStructs_beginWhile:
  "beginWhile cg = Inr (func, condBB, loopBB, afterBB, cg') \<Longrightarrow> sameStructs cg cg'"
  by (auto simp: beginWhile_def Let_def sameStructs_def split: prod.splits sum.splits
      dest!: sameStructs_pairs(7,8))

lemma sameStructs_enterLoopBody:
  "sameStructs cg (enterLoopBody func loopBB afterBB condV cg)"
  by (auto simp: enterLoopBody_def Let_def sameStructs_def split: prod.splits
      dest!: sameStructs_pairs(9))

lemma sameStructs_generateStart: "sameStructs cg (generateStart stmts cg)"
  by (auto simp: generateStart_def Let_def sameStructs_def split: prod.splits
      dest!: sameStructs_pairs(6,8))

lemma visitExpr_sameStructs:
  "CodeGen_visitExpr lib cg e = Inr cg' \<Longrightarrow> sameStructs cg cg'"
  "CodeGen_visitArgs lib cg es argsV = Inr (r, cg') \<Longrightarrow> sameStructs cg cg'"
  "CodeGen_storeElements lib cg es i elemType arrayPtr = Inr cg' \<Longrightarrow> sameStructs cg cg'"
  "getLValueAddress lib cg e = Inr (a, cg') \<Longrightarrow> sameStructs cg cg'"
proof (induction lib cg e and lib cg es argsV and lib cg es i elemType arrayPtr and lib cg e
       arbitrary: cg' and r cg' and cg' and a cg'
       rule: CodeGen_visitExpr_CodeGen_visitArgs_CodeGen_storeElements_getLValueAddress.induct)
  case (1 lib cg ty v isFloat isBool isString)
  then show ?case using sameStructs_visitLiteral by simp
next
  case (2 lib cg ty name)
  then show ?case
    by (auto split: option.splits prod.splits dest!: sameStructs_pairs(1))
next
  case (3 lib cg ty op l r)
  show ?case
  proof (cases "op = ''=''")
    case True
    with "3.prems" "3.IH"(1,2) show ?thesis
      by (auto split: sum.splits option.splits prod.splits intro: sameStructs_trans)
  next
    case False
    with "3.prems" "3.IH"(3,4) show ?thesis
      by (auto split: sum.splits option.splits prod.splits
          intro: sameStructs_trans)
  qed
next
  case (4 lib cg ty calleeName args)
  show ?case
  proof (cases "getFunction cg calleeName")
    case None
    with "4.prems" show ?thesis by auto
  next
    case (Some callee)
    show ?thesis
    proof (cases "length (fn_paramTypes callee) \<noteq> length args")
      case True
      with "4.prems" Some show ?thesis by auto
    next
      case False
      with "4.prems" Some obtain r cg1 where va: "CodeGen_visitArgs lib cg args [] = Inr (r, cg1)"
        by (auto split: sum.splits)
      have s1: "sameStructs cg cg1" using "4.IH" [OF Some False va] .
      show ?thesis
      proof (cases r)
        case None
        with "4.prems" Some False va s1 show ?thesis by simp
      next
        case (Some argsV)
        obtain v cg2 where cc: "CreateCall callee argsV cg1 = (v, cg2)"
          by (cases "CreateCall callee argsV cg1") auto
        with "4.prems" \<open>getFunction cg calleeName = Some callee\<close> False va Some
        have "cg' = cg2\<lparr>lastValue := Some v\<rparr>" by simp
        with s1 sameStructs_pairs(4) [OF cc] show ?thesis
          by (auto intro: sameStructs_trans)
      qed
    qed
  qed
next
  case (5 lib cg ty obj member)
  then show ?case
    by (auto split: sum.splits option.splits prod.splits
        dest!: sameStructs_pairs(1) intro: sameStructs_trans)
next
  case (6 lib cg ty obj idx)
  then show ?case
    by (auto split: sum.splits option.splits prod.splits
        dest!: sameStructs_pairs(1) intro: sameStructs_trans)
next
  case (7 lib cg ty elements)
  then show ?case
    by (auto simp: Let_def split: sum.splits prod.splits
             intro: sameStructs_trans dest: sameStructs_callMalloc)
next
  case (8 lib cg argsV)
  then show ?case by simp
next
  case (9 lib cg arg args argsV)
  then show ?case
    by (auto split: sum.splits option.splits intro: sameStructs_trans)
next
  case (10 lib cg i elemType arrayPtr)
  then show ?case by simp
next
  case (11 lib cg e es i elemType arrayPtr)
  from "11.prems" obtain cg1 where v: "CodeGen_visitExpr lib cg e = Inr cg1"
    by (auto split: sum.splits)
  obtain gep cg2 where g: "CreateGEP elemType arrayPtr [ConstantInt 64 i] cg1 = (gep, cg2)"
    by (cases "CreateGEP elemType arrayPtr [ConstantInt 64 i] cg1") auto
  from "11.prems" v g have rest:
    "CodeGen_storeElements lib (CreateStore (lastValue cg1) gep cg2) es (i + 1) elemType arrayPtr = Inr cg'"
    by (simp add: Let_def)
  have "sameStructs cg cg1" using "11.IH"(1) v by simp
  moreover have "sameStructs cg1 (CreateStore (lastValue cg1) gep cg2)"
    using sameStructs_pairs(2) [OF g] by simp
  moreover have "sameStructs (CreateStore (lastValue cg1) gep cg2) cg'"
    using "11.IH"(2) [OF v refl refl g [symmetric] refl rest] .
  ultimately show ?case by (blast intro: sameStructs_trans)
next
  case (12 lib cg ty name)
  then show ?case by (auto split: option.splits)
next
  case (13 lib cg ty obj member)
  then show ?case
    by (auto split: sum.splits option.splits prod.splits
             intro: sameStructs_trans dest: sameStructs_memberAddress)
next
  case (14 lib cg ty obj idx)
  from "14.prems" obtain unused cg0 where l: "getLValueAddress lib cg obj = Inr (unused, cg0)"
    by (auto split: sum.splits)
  with "14.prems" obtain cg1 where v1: "CodeGen_visitExpr lib cg0 obj = Inr cg1"
    by (auto split: sum.splits)
  have s01: "sameStructs cg cg1"
    using "14.IH"(1) [OF l] "14.IH"(2) [OF l refl v1] by (rule sameStructs_trans)
  show ?case
  proof (cases "lastValue cg1")
    case None
    with "14.prems" l v1 s01 show ?thesis by simp
  next
    case (Some arrayPtr)
    with "14.prems" l v1 obtain cg2 where v2: "CodeGen_visitExpr lib cg1 idx = Inr cg2"
      by (auto split: sum.splits)
    have s12: "sameStructs cg1 cg2" using "14.IH"(3) [OF l refl v1 Some v2] .
    show ?thesis
    proof (cases "lastValue cg2")
      case None
      with "14.prems" l v1 Some v2 s01 s12 show ?thesis
        by (auto intro: sameStructs_trans)
    next
      case (Some indexVal)
      with "14.prems" l v1 \<open>lastValue cg1 = Some arrayPtr\<close> v2
      have "indexAddress cg2 arrayPtr indexVal (expr_type obj) = (a, cg')" by simp
      from sameStructs_indexAddress [OF this] have "sameStructs cg2 cg'" .
      with s01 s12 show ?thesis by (blast intro: sameStructs_trans)
    qed
  qed
qed simp_all

text \<open>
  A visit of a statement keeps the entries of a struct name that is already registered,
  and of one that the statement does not declare.
\<close>

lemma keepsStruct_refl [simp]: "keepsStruct n cg cg"
  by (simp add: keepsStruct_def)

lemma keepsStruct_trans: "keepsStruct n a b \<Longrightarrow> keepsStruct n b c \<Longrightarrow> keepsStruct n a c"
  by (simp add: keepsStruct_def)

lemma sameStructs_keepsStruct: "sameStructs cg cg' \<Longrightarrow> keepsStruct n cg cg'"
  by (simp add: sameStructs_def keepsStruct_def)

lemma keepsStruct_registered:
  "keepsStruct n cg cg' \<Longrightarrow> structTypes cg n \<noteq> None \<Longrightarrow> structTypes cg' n \<noteq> None"
  by (simp add: keepsStruct_def)

lemma keepsStruct_moved [simp]:
  "keepsStruct n cg (SetInsertPoint bb (Function_insert func bb (branchIfOpen t cg'))) =
     keepsStruct n cg cg'"
  by (simp add: keepsStruct_def)

lemma visitStructDecl_keepsStruct:
  "structTypes cg n \<noteq> None \<or> name \<noteq> n \<Longrightarrow> keepsStruct n cg (visitStructDecl name fs cg)"
  by (auto simp: visitStructDecl_def keepsStruct_def Let_def)

lemma visitStmt_keepsStruct:
  "CodeGen_visitStmt lib cg s = Inr cg' \<Longrightarrow>
     structTypes cg n \<noteq> None \<or> \<not> declaresStruct n s \<Longrightarrow> keepsStruct n cg cg'"
  "CodeGen_visitBlock lib cg ss = Inr cg' \<Longrightarrow>
     structTypes cg n \<noteq> None \<or> \<not> list_ex (declaresStruct n) ss \<Longrightarrow> keepsStruct n cg cg'"
proof (induction lib cg s and lib cg ss arbitrary: cg' and cg'
       rule: CodeGen_visitStmt_CodeGen_visitBlock.induct)
  case (1 lib cg e)
  then show ?case by (simp add: visitExpr_sameStructs(1) sameStructs_keepsStruct)
next
  case (2 lib cg)
  then show ?case by (auto simp: keepsStruct_def)
next
  case (3 lib cg v)
  then obtain cg1 where v: "CodeGen_visitExpr lib cg v = Inr cg1" and r: "cg' = CreateRet (lastValue cg1) cg1"
    by (auto split: sum.splits)
  from visitExpr_sameStructs(1) [OF v] show ?case
    unfolding r by (simp add: keepsStruct_def sameStructs_def)
next
  case (4 lib cg ss)
  then show ?case by simp
next
  case (5 lib cg c thenBranch elseBranch)
  from "5.prems" obtain cg0 where c: "CodeGen_visitExpr lib cg c = Inr cg0"
    by (auto split: sum.splits)
  have s0: "keepsStruct n cg cg0"
    using visitExpr_sameStructs(1) [OF c] by (rule sameStructs_keepsStruct)
  show ?case
  proof (cases "lastValue cg0")
    case None
    with "5.prems" c s0 show ?thesis by simp
  next
    case (Some condV)
    with "5.prems" c obtain func elseBB mergeBB cg1
      where b: "beginIf (elseBranch \<noteq> None) condV cg0 = Inr (func, elseBB, mergeBB, cg1)"
      by (auto split: sum.splits)
    have s1: "keepsStruct n cg cg1"
      using s0 sameStructs_keepsStruct [OF sameStructs_beginIf [OF b]] by (rule keepsStruct_trans)
    from "5.prems" c Some b obtain cg2 where t: "CodeGen_visitBlock lib cg1 thenBranch = Inr cg2"
      by (auto split: sum.splits)
    have tb: "structTypes cg1 n \<noteq> None \<or> \<not> list_ex (declaresStruct n) thenBranch"
      using "5.prems"(2) s1 by (cases elseBranch) (auto simp: keepsStruct_def)
    have s2: "keepsStruct n cg1 cg2" using "5.IH"(1) [OF c Some b refl refl refl t tb] .
    have s02: "keepsStruct n cg cg2" using s1 s2 by (rule keepsStruct_trans)
    show ?thesis
    proof (cases elseBranch)
      case None
      with "5.prems" c Some b t
      have r: "cg' = SetInsertPoint mergeBB (Function_insert func mergeBB (branchIfOpen mergeBB cg2))"
        by simp
      show ?thesis unfolding r using s02 by simp
    next
      case (Some elseStmts)
      let ?cgE = "SetInsertPoint elseBB (Function_insert func elseBB (branchIfOpen mergeBB cg2))"
      from "5.prems" c \<open>lastValue cg0 = Some condV\<close> b t Some
      obtain cg3 where e: "CodeGen_visitBlock lib ?cgE elseStmts = Inr cg3"
        and r: "cg' = SetInsertPoint mergeBB (Function_insert func mergeBB (branchIfOpen mergeBB cg3))"
        by (auto split: sum.splits)
      have sE: "keepsStruct n cg ?cgE" using s02 by (simp add: keepsStruct_def)
      have eb: "structTypes ?cgE n \<noteq> None \<or> \<not> list_ex (declaresStruct n) elseStmts"
        using "5.prems"(2) sE Some by (auto simp: keepsStruct_def)
      have s3: "keepsStruct n ?cgE cg3"
        using "5.IH"(2) [OF c \<open>lastValue cg0 = Some condV\<close> b refl refl refl t Some e eb] .
      have "keepsStruct n cg cg3" using sE s3 by (rule keepsStruct_trans)
      then show ?thesis unfolding r by (simp add: keepsStruct_def)
    qed
  qed
next
  case (6 lib cg c body)
  from "6.prems" obtain func condBB loopBB afterBB cg1
    where b: "beginWhile cg = Inr (func, condBB, loopBB, afterBB, cg1)"
    by (auto split: sum.splits)
  from "6.prems" b obtain cg2 where c: "CodeGen_visitExpr lib cg1 c = Inr cg2"
    by (auto split: sum.splits)
  have s2: "sameStructs cg cg2"
    using sameStructs_beginWhile [OF b] visitExpr_sameStructs(1) [OF c] by (rule sameStructs_trans)
  show ?case
  proof (cases "lastValue cg2")
    case None
    with "6.prems" b c have "cg' = cg2" by simp
    with s2 show ?thesis by (simp add: sameStructs_keepsStruct)
  next
    case (Some condV)
    let ?cgL = "enterLoopBody func loopBB afterBB condV cg2"
    from "6.prems" b c Some obtain cg3 where l: "CodeGen_visitBlock lib ?cgL body = Inr cg3"
      and r: "cg' = SetInsertPoint afterBB (Function_insert func afterBB (branchIfOpen condBB cg3))"
      by (auto split: sum.splits)
    have sL: "sameStructs cg ?cgL"
      using s2 sameStructs_enterLoopBody by (rule sameStructs_trans)
    have lb: "structTypes ?cgL n \<noteq> None \<or> \<not> list_ex (declaresStruct n) body"
      using "6.prems"(2) sL by (auto simp: sameStructs_def)
    have s3: "keepsStruct n ?cgL cg3" using "6.IH" [OF b refl refl refl refl c Some l lb] .
    have "keepsStruct n cg cg3"
      using sameStructs_keepsStruct [OF sL] s3 by (rule keepsStruct_trans)
    then show ?thesis unfolding r by (simp add: keepsStruct_def)
  qed
next
  case (7 lib cg name typeName initializer)
  then show ?case
    by (auto split: sum.splits option.splits
        dest!: sameStructs_declareVariable visitExpr_sameStructs(1)
        intro: sameStructs_keepsStruct sameStructs_trans)
next
  case (8 lib cg name params returnTypeName)
  obtain func cg1 where p: "createPrototype name params returnTypeName cg = (func, cg1)"
    by (cases "createPrototype name params returnTypeName cg") auto
  from sameStructs_pairs(10) [OF p] "8.prems" p show ?case
    by (simp add: sameStructs_keepsStruct)
next
  case (9 lib cg name params returnTypeName body)
  obtain func cg1 where p: "createPrototype name params returnTypeName cg = (func, cg1)"
    by (cases "createPrototype name params returnTypeName cg") auto
  from "9.prems" p obtain cg2 where en: "enterFunction func params cg1 = Inr cg2"
    by (auto simp: Let_def split: sum.splits)
  from "9.prems" p en obtain cg3 where b: "CodeGen_visitBlock lib cg2 body = Inr cg3"
    and r: "cg' = leaveFunction func returnTypeName (insertBlock cg1) (namedValues cg1) cg3"
    by (auto simp: Let_def split: sum.splits)
  have s2: "sameStructs cg cg2"
    using sameStructs_pairs(10) [OF p] sameStructs_enterFunction [OF en] by (rule sameStructs_trans)
  have bb: "structTypes cg2 n \<noteq> None \<or> \<not> list_ex (declaresStruct n) body"
    using "9.prems"(2) s2 by (auto simp: sameStructs_def)
  have s3: "keepsStruct n cg2 cg3" using "9.IH" [OF refl p [symmetric] refl refl en b bb] .
  have "keepsStruct n cg cg3"
    using sameStructs_keepsStruct [OF s2] s3 by (rule keepsStruct_trans)
  then show ?case
    unfolding r by (simp add: keepsStruct_def leaveFunction_def Let_def)
next
  case (10 lib cg name fs)
  then show ?case using visitStructDecl_keepsStruct [of cg n name fs] by auto
next
  case (11 lib cg)
  then show ?case by simp
next
  case (12 lib cg s ss)
  from "12.prems"(1) obtain cg1 where s: "CodeGen_visitStmt lib cg s = Inr cg1"
    and rest: "CodeGen_visitBlock lib cg1 ss = Inr cg'"
    by (auto split: sum.splits)
  have a: "structTypes cg n \<noteq> None \<or> \<not> declaresStruct n s" using "12.prems"(2) by auto
  have s1: "keepsStruct n cg cg1" using "12.IH"(1) [OF s a] .
  have b: "structTypes cg1 n \<noteq> None \<or> \<not> list_ex (declaresStruct n) ss"
    using "12.prems"(2) s1 by (auto simp: keepsStruct_def)
  have "keepsStruct n cg1 cg'" using "12.IH"(2) [OF s rest b] .
  with s1 show ?case by (rule keepsStruct_trans)
qed

text \<open>
  The type checker keeps the entry of a struct name through the statements that do not
  declare it.
\<close>

lemma visit_keeps_structDefs_pair:
  "visitStmt tc s = (s', tc') \<Longrightarrow> \<not> declaresStruct n s \<Longrightarrow> structDefs tc' n = structDefs tc n"
  "visitBlock tc ss = (ss', tc') \<Longrightarrow> \<not> list_ex (declaresStruct n) ss \<Longrightarrow>
     structDefs tc' n = structDefs tc n"
proof (induction tc s and tc ss arbitrary: s' tc' and ss' tc' rule: visitStmt_visitBlock.induct)
  case (6 tc c thenBranch elseBranch)
  obtain t' tc1 where t: "visitBlock tc thenBranch = (t', tc1)"
    by (cases "visitBlock tc thenBranch") auto
  obtain e' tc2 where e: "visitBlock tc1 elseBranch = (e', tc2)"
    by (cases "visitBlock tc1 elseBranch") auto
  from "6.prems" t e have r: "tc' = tc2" by (simp add: Let_def)
  from "6.prems"(2) have nd: "\<not> list_ex (declaresStruct n) thenBranch"
    "\<not> list_ex (declaresStruct n) elseBranch" by simp_all
  have "structDefs tc1 n = structDefs tc n" using "6.IH"(1) [OF refl t nd(1)] .
  moreover have "structDefs tc2 n = structDefs tc1 n"
    using "6.IH"(2) [OF refl refl t [symmetric] e nd(2)] .
  ultimately show ?case using r by simp
next
  case (14 tc s ss)
  obtain s1 tc1 where s: "visitStmt tc s = (s1, tc1)" by (cases "visitStmt tc s") auto
  obtain ss1 tc2 where b: "visitBlock tc1 ss = (ss1, tc2)" by (cases "visitBlock tc1 ss") auto
  from "14.prems" s b have r: "tc' = tc2" by (simp add: Let_def)
  from "14.prems"(2) have nd: "\<not> declaresStruct n s" "\<not> list_ex (declaresStruct n) ss"
    by simp_all
  have "structDefs tc1 n = structDefs tc n" using "14.IH"(1) [OF s nd(1)] .
  moreover have "structDefs tc2 n = structDefs tc1 n"
    using "14.IH"(2) [OF refl s [symmetric] b nd(2)] .
  ultimately show ?case using r by simp
qed (auto simp: Let_def split: prod.splits)

lemma visit_keeps_structDefs:
  "\<not> list_ex (declaresStruct n) ss \<Longrightarrow> structDefs (snd (visitBlock tc ss)) n = structDefs tc n"
  using visit_keeps_structDefs_pair(2) [of tc ss "fst (visitBlock tc ss)" "snd (visitBlock tc ss)" n]
  by simp

lemma visitBlock_append:
  "snd (visitBlock tc (as @ bs)) = snd (visitBlock (snd (visitBlock tc as)) bs)"
  by (induction as arbitrary: tc) (simp_all add: Let_def split_beta)

lemma CodeGen_visitBlock_append:
  "CodeGen_visitBlock lib cg (as @ bs) =
     (case CodeGen_visitBlock lib cg as of
        Inl err \<Rightarrow> Inl err
      | Inr cg1 \<Rightarrow> CodeGen_visitBlock lib cg1 bs)"
  by (induction as arbitrary: cg) (auto split: sum.splits)

lemma generate_generateStart:
  assumes "generate lib cg stmts = Inr cg'"
  shows "\<exists>cg4. CodeGen_visitBlock lib (generateStart stmts cg) stmts = Inr cg4 \<and> sameStructs cg4 cg'"
  using assms
  by (auto simp: generate_def generateStart_def Let_def sameStructs_def
      split: prod.splits sum.splits if_splits)

lemma first_declaration_registered:
  assumes run: "CodeGen_visitBlock lib cg (pre @ StructDeclStmt name fs1 # rest) = Inr cg'"
    and fresh: "structTypes cg name = None"
    and pre: "\<not> list_ex (declaresStruct name) pre"
  shows "\<exists>cg1. CodeGen_visitBlock lib cg pre = Inr cg1
           \<and> structTypes cg' name =
               Some (StructTy name (map (\<lambda>f. getType (structTypes cg1) (snd f)) fs1))
           \<and> structFieldIndices cg' name = Some (fieldIndicesFrom 0 fs1 Map.empty)"
proof -
  from run obtain cg1 where p: "CodeGen_visitBlock lib cg pre = Inr cg1"
    and r: "CodeGen_visitBlock lib (visitStructDecl name fs1 cg1) rest = Inr cg'"
    by (auto simp: CodeGen_visitBlock_append split: sum.splits)
  have "keepsStruct name cg cg1" using visitStmt_keepsStruct(2) [OF p] pre by simp
  with fresh have f1: "structTypes cg1 name = None" by (simp add: keepsStruct_def)
  let ?cg2 = "visitStructDecl name fs1 cg1"
  have t2: "structTypes ?cg2 name =
      Some (StructTy name (map (\<lambda>f. getType (structTypes cg1) (snd f)) fs1))"
    and i2: "structFieldIndices ?cg2 name = Some (fieldIndicesFrom 0 fs1 Map.empty)"
    using f1 by (simp_all add: visitStructDecl_def Let_def)
  have "keepsStruct name ?cg2 cg'" using visitStmt_keepsStruct(2) [OF r] t2 by simp
  with t2 i2 p show ?thesis by (auto simp: keepsStruct_def)
qed

lemma last_declaration_registered:
  assumes "\<not> list_ex (declaresStruct name) post"
  shows "structDefs (snd (visitBlock tc (pre @ StructDeclStmt name fsN # post))) name =
           Some (StructType name
                  (map (\<lambda>f. (fst f, resolveType (structDefs (snd (visitBlock tc pre))) (snd f))) fsN))"
proof -
  let ?tc1 = "snd (visitBlock tc pre)"
  let ?tc2 = "snd (visitStmt ?tc1 (StructDeclStmt name fsN))"
  have "snd (visitBlock tc (pre @ StructDeclStmt name fsN # post)) = snd (visitBlock ?tc2 post)"
    by (simp add: visitBlock_append Let_def split_beta)
  then show ?thesis
    using visit_keeps_structDefs [OF assms, of ?tc2] by (simp add: Let_def)
qed

text \<open>
  C10. For every module that \<^verbatim>\<open>generate\<close> lowers, and every struct name that the code
  generator has not registered before: if the module has a top-level declaration of
  the name and no statement before it declares the name (it is the first declaration),
  then at the end \<^verbatim>\<open>structTypes\<close> and \<^verbatim>\<open>structFieldIndices\<close> hold the aggregate type and
  the field indices of that declaration, whatever follows it: every later declaration
  of the name is ignored. And for every module with a top-level declaration of the name
  after which no statement declares the name (the last declaration), the struct registry
  of the type checker holds at the end the type built from that declaration, whatever
  precedes it. The field types are resolved in the state in which the declaration is
  visited. So the two stages can disagree on the layout of the struct: for the module
  of \<^verbatim>\<open>struct P x: int y: int end\<close> and \<^verbatim>\<open>struct P y: int x: int end\<close> the field \<^verbatim>\<open>x\<close>
  has the index 1 in the type checker and the index 0 in the code generator.
\<close>

theorem duplicate_struct_declaration:
  "(generate lib cg stmts = Inr cg' \<and> structTypes cg name = None
      \<and> stmts = pre @ StructDeclStmt name fs1 # rest \<and> \<not> list_ex (declaresStruct name) pre
    \<longrightarrow> (\<exists>cg1. CodeGen_visitBlock lib (generateStart stmts cg) pre = Inr cg1
           \<and> structTypes cg' name =
               Some (StructTy name (map (\<lambda>f. getType (structTypes cg1) (snd f)) fs1))
           \<and> structFieldIndices cg' name = Some (fieldIndicesFrom 0 fs1 Map.empty)))
   \<and> (\<not> list_ex (declaresStruct name) post
    \<longrightarrow> structDefs (snd (check tc (pre' @ StructDeclStmt name fsN # post))) name =
          Some (StructType name
                 (map (\<lambda>f. (fst f, resolveType (structDefs (snd (check tc pre'))) (snd f))) fsN)))
   \<and> (\<exists>tc' cg'. check TypeChecker_new
                    [StructDeclStmt ''P'' [(''x'', ''int''), (''y'', ''int'')],
                     StructDeclStmt ''P'' [(''y'', ''int''), (''x'', ''int'')]] =
                   ([StructDeclStmt ''P'' [(''x'', ''int''), (''y'', ''int'')],
                     StructDeclStmt ''P'' [(''y'', ''int''), (''x'', ''int'')]], tc')
          \<and> generate exampleLibrary CodeGen_new
                    [StructDeclStmt ''P'' [(''x'', ''int''), (''y'', ''int'')],
                     StructDeclStmt ''P'' [(''y'', ''int''), (''x'', ''int'')]] = Inr cg'
          \<and> semaMemberIndex tc' ''P'' ''x'' = Some 1
          \<and> codegenFieldIndex cg' ''P'' ''x'' = Some 0)"
proof (intro conjI impI)
  assume a: "generate lib cg stmts = Inr cg' \<and> structTypes cg name = None
      \<and> stmts = pre @ StructDeclStmt name fs1 # rest \<and> \<not> list_ex (declaresStruct name) pre"
  then obtain cg4 where v: "CodeGen_visitBlock lib (generateStart stmts cg) stmts = Inr cg4"
    and s: "sameStructs cg4 cg'"
    using generate_generateStart by blast
  have fresh: "structTypes (generateStart stmts cg) name = None"
    using a sameStructs_generateStart [of cg stmts] by (simp add: sameStructs_def)
  from v a have "CodeGen_visitBlock lib (generateStart stmts cg)
                   (pre @ StructDeclStmt name fs1 # rest) = Inr cg4" by simp
  from first_declaration_registered [OF this fresh] a s
  show "\<exists>cg1. CodeGen_visitBlock lib (generateStart stmts cg) pre = Inr cg1
           \<and> structTypes cg' name =
               Some (StructTy name (map (\<lambda>f. getType (structTypes cg1) (snd f)) fs1))
           \<and> structFieldIndices cg' name = Some (fieldIndicesFrom 0 fs1 Map.empty)"
    by (auto simp: sameStructs_def)
next
  assume "\<not> list_ex (declaresStruct name) post"
  then show "structDefs (snd (check tc (pre' @ StructDeclStmt name fsN # post))) name =
          Some (StructType name
                 (map (\<lambda>f. (fst f, resolveType (structDefs (snd (check tc pre'))) (snd f))) fsN))"
    unfolding check_def by (rule last_declaration_registered)
next
  show "\<exists>tc' cg'. check TypeChecker_new
                    [StructDeclStmt ''P'' [(''x'', ''int''), (''y'', ''int'')],
                     StructDeclStmt ''P'' [(''y'', ''int''), (''x'', ''int'')]] =
                   ([StructDeclStmt ''P'' [(''x'', ''int''), (''y'', ''int'')],
                     StructDeclStmt ''P'' [(''y'', ''int''), (''x'', ''int'')]], tc')
          \<and> generate exampleLibrary CodeGen_new
                    [StructDeclStmt ''P'' [(''x'', ''int''), (''y'', ''int'')],
                     StructDeclStmt ''P'' [(''y'', ''int''), (''x'', ''int'')]] = Inr cg'
          \<and> semaMemberIndex tc' ''P'' ''x'' = Some 1
          \<and> codegenFieldIndex cg' ''P'' ''x'' = Some 0"
    by (simp add: check_def generate_def semaMemberIndex_def codegenFieldIndex_def
          visitStructDecl_def Let_def getMemberIndex_def hasUserMain_def
          Function_Create_def BasicBlock_Create_in_def BasicBlock_Create_def Function_insert_def
          SetInsertPoint_def CodeGen_new_def TypeChecker_new_def getTerminator_def CreateRet_def
          emit_def resolveType.simps)
qed

text \<open>
  C10 at the module of \<^verbatim>\<open>struct P x: int y: int end\<close>, \<^verbatim>\<open>var k: int = 1\<close> and
  \<^verbatim>\<open>struct P y: float x: int end\<close>: the code generator has the two \<^verbatim>\<open>i64\<close> fields of the
  first declaration and the index 0 for \<^verbatim>\<open>x\<close>, the type checker the fields of the second
  and the index 1.
\<close>

theorem duplicate_struct_declaration_witness:
  "structTypes (projr (generate exampleLibrary CodeGen_new
       [StructDeclStmt ''P'' [(''x'', ''int''), (''y'', ''int'')],
        VarDeclStmt ''k'' ''int'' (Some (LiteralExpr None ''1'' False False False)),
        StructDeclStmt ''P'' [(''y'', ''float''), (''x'', ''int'')]])) ''P'' =
     Some (StructTy ''P'' [IntegerTy 64, IntegerTy 64])
   \<and> codegenFieldIndex (projr (generate exampleLibrary CodeGen_new
       [StructDeclStmt ''P'' [(''x'', ''int''), (''y'', ''int'')],
        VarDeclStmt ''k'' ''int'' (Some (LiteralExpr None ''1'' False False False)),
        StructDeclStmt ''P'' [(''y'', ''float''), (''x'', ''int'')]])) ''P'' ''x'' = Some 0
   \<and> structDefs (snd (check TypeChecker_new
       [StructDeclStmt ''P'' [(''x'', ''int''), (''y'', ''int'')],
        VarDeclStmt ''k'' ''int'' (Some (LiteralExpr None ''1'' False False False)),
        StructDeclStmt ''P'' [(''y'', ''float''), (''x'', ''int'')]])) ''P'' =
     Some (StructType ''P'' [(''y'', FloatType), (''x'', IntType)])
   \<and> semaMemberIndex (snd (check TypeChecker_new
       [StructDeclStmt ''P'' [(''x'', ''int''), (''y'', ''int'')],
        VarDeclStmt ''k'' ''int'' (Some (LiteralExpr None ''1'' False False False)),
        StructDeclStmt ''P'' [(''y'', ''float''), (''x'', ''int'')]])) ''P'' ''x'' = Some 1"
proof -
  let ?d1 = "StructDeclStmt ''P'' [(''x'', ''int''), (''y'', ''int'')]"
  let ?v = "VarDeclStmt ''k'' ''int'' (Some (LiteralExpr None ''1'' False False False))"
  let ?d2 = "StructDeclStmt ''P'' [(''y'', ''float''), (''x'', ''int'')]"
  let ?stmts = "[?d1, ?v, ?d2]"
  let ?g = "generate exampleLibrary CodeGen_new ?stmts"
  have "\<not> isl ?g" by code_simp
  then have g: "?g = Inr (projr ?g)" by simp
  have fresh: "structTypes CodeGen_new ''P'' = None" by (simp add: CodeGen_new_def)
  have s1: "?stmts = [] @ ?d1 # [?v, ?d2]" by simp
  have n1: "\<not> list_ex (declaresStruct ''P'') []" by simp
  have s2: "?stmts = [?d1, ?v] @ ?d2 # []" by simp
  note t = duplicate_struct_declaration [of exampleLibrary CodeGen_new ?stmts "projr ?g" "''P''"
      "[]" "[(''x'', ''int''), (''y'', ''int'')]" "[?v, ?d2]" "[]" TypeChecker_new "[?d1, ?v]"
      "[(''y'', ''float''), (''x'', ''int'')]"]
  from t g fresh
  have c: "structTypes (projr ?g) ''P'' =
             Some (StructTy ''P'' (map (\<lambda>f. getType (structTypes (generateStart ?stmts CodeGen_new)) (snd f))
                                      [(''x'', ''int''), (''y'', ''int'')]))"
    and i: "structFieldIndices (projr ?g) ''P'' =
             Some (fieldIndicesFrom 0 [(''x'', ''int''), (''y'', ''int'')] Map.empty)"
    by auto
  from t have d: "structDefs (snd (check TypeChecker_new ?stmts)) ''P'' =
      Some (StructType ''P''
             (map (\<lambda>f. (fst f, resolveType (structDefs (snd (check TypeChecker_new [?d1, ?v]))) (snd f)))
                  [(''y'', ''float''), (''x'', ''int'')]))"
    by simp
  from c have c': "structTypes (projr ?g) ''P'' = Some (StructTy ''P'' [IntegerTy 64, IntegerTy 64])"
    by (simp add: getType.simps)
  from i have i': "codegenFieldIndex (projr ?g) ''P'' ''x'' = Some 0"
    by (simp add: codegenFieldIndex_def)
  from d have d': "structDefs (snd (check TypeChecker_new ?stmts)) ''P'' =
      Some (StructType ''P'' [(''y'', FloatType), (''x'', IntType)])"
    by (simp add: resolveType.simps)
  then have "semaMemberIndex (snd (check TypeChecker_new ?stmts)) ''P'' ''x'' = Some 1"
    by (simp add: semaMemberIndex_def getMemberIndex_def)
  with c' i' d' show ?thesis by simp
qed


end
